(* ===== verification/Prelude.thy ===== *)
theory Prelude
  imports Main
    "HOL-Library.Multiset"
    "HOL-Library.List_Lexorder"
    "HOL-Library.Product_Lexorder"
    "HOL-Library.Char_ord"
    "HOL-Library.AList"
begin

text \<open>
  Shared vocabulary of the development. The program keeps its road network in a Python
  dictionary \<open>graph\<close> that maps a location to the list of its \<open>(neighbour, weight)\<close>
  pairs (\<^verbatim>\<open>src/ShortestRoute.py\<close>, lines 18--19 and 45--51). A Python dictionary
  remembers insertion order and the display loops (lines 60 and 71) iterate in that order,
  so the dictionary is an association list with distinct keys, the later keys last.
  \<open>adj g n\<close> is \<^verbatim>\<open>graph.get(n, [])\<close> (line 115). Nodes and weights are type
  variables here; the application instantiates them to strings and rationals.
  Lists, strings and tuples are compared lexicographically, as Python compares them:
  the orders of \<open>List_Lexorder\<close>, \<open>Char_ord\<close> and \<open>Product_Lexorder\<close>.
\<close>

named_theorems adj_simps "equations for adjacency lookups in a graph"
named_theorems eval_simps "equations that evaluate the model on concrete inputs"

type_synonym ('n, 'w) graph = "('n \<times> ('n \<times> 'w) list) list"

text \<open>A heap entry of the search: accumulated distance, node, path so far.\<close>

type_synonym ('n, 'w) entry = "'w \<times> 'n \<times> 'n list"

definition adj :: "('n, 'w) graph \<Rightarrow> 'n \<Rightarrow> ('n \<times> 'w) list" where [eval_simps]:
  "adj g n = (case map_of g n of None \<Rightarrow> [] | Some es \<Rightarrow> es)"

definition keys :: "('n, 'w) graph \<Rightarrow> 'n set" where
  "keys g = set (map fst g)"

definition nonneg_weights :: "('n, 'w::{zero,ord}) graph \<Rightarrow> bool" where
  "nonneg_weights g \<longleftrightarrow> (\<forall>(u, es) \<in> set g. \<forall>(v, w) \<in> set es. 0 \<le> w)"

subsection \<open>Adjacency lookups\<close>

lemma finite_keys [simp]: "finite (keys g)"
  by (simp add: keys_def)

lemma adj_not_key [adj_simps]: "u \<notin> keys g \<Longrightarrow> adj g u = []"
proof -
  assume "u \<notin> keys g"
  then have "map_of g u = None" by (simp add: keys_def map_of_eq_None_iff)
  then show ?thesis by (simp add: adj_def)
qed

lemma adj_Nil [adj_simps]: "adj [] u = []"
  by (simp add: adj_def)

lemma adj_Cons [adj_simps]: "adj ((k, es) # g) u = (if u = k then es else adj g u)"
  by (simp add: adj_def)

lemma keys_Nil [simp]: "keys [] = {}"
  by (simp add: keys_def)

lemma keys_Cons [simp]: "keys ((k, es) # g) = insert k (keys g)"
  by (simp add: keys_def)

lemma keys_append [simp]: "keys (g @ h) = keys g \<union> keys h"
  by (simp add: keys_def)

lemma adj_append [adj_simps]: "adj (g @ h) u = (if u \<in> keys g then adj g u else adj h u)"
  by (induction g) (auto simp: adj_Nil adj_Cons)

lemma adj_in_graph: "(v, w) \<in> set (adj g u) \<Longrightarrow> \<exists>es. (u, es) \<in> set g \<and> (v, w) \<in> set es"
  by (auto simp: adj_def split: option.splits dest: map_of_SomeD[OF sym])

lemma nonneg_adj: "nonneg_weights g \<Longrightarrow> (v, w) \<in> set (adj g u) \<Longrightarrow> 0 \<le> w"
  by (fastforce simp: nonneg_weights_def dest: adj_in_graph)

subsection \<open>Lists and sums\<close>

lemma in_remove1_other: "y \<in> set xs \<Longrightarrow> y \<noteq> x \<Longrightarrow> y \<in> set (remove1 x xs)"
  by simp

lemma sum_insert_diff:
  assumes "finite A" "u \<in> A" "u \<notin> V"
  shows "(\<Sum>x \<in> A - V. f x) = f u + (\<Sum>x \<in> A - insert u V. f x)"
proof -
  have "A - insert u V = (A - V) - {u}" by auto
  with assms show ?thesis by (simp add: sum.remove)
qed

lemmas order_eval [eval_simps] = less_eq_prod_def less_prod_def

lemma prod_le_fst: "(a, b) \<le> (c, d) \<Longrightarrow> a \<le> (c::'a::order)"
  by (auto simp: less_eq_prod_def)

end
