(* ===== verification/HeapQ.thy ===== *)
theory HeapQ
  imports Prelude
begin

text \<open>
  The priority queue of the search is a Python list handled by the standard module
  \<open>heapq\<close> (\<^verbatim>\<open>src/ShortestRoute.py\<close>, lines 105, 108 and 117). The module is not part of
  the repository; its contract is that \<^verbatim>\<open>heappush(h, x)\<close> adds \<open>x\<close> and
  \<^verbatim>\<open>heappop(h)\<close> removes and returns a least element under Python's comparison, which for
  the search's tuples \<open>(distance, node, path)\<close> is the lexicographic order. The model
  keeps the contents as a list read as a multiset: a push appends, a pop takes the least
  element out. The search never pops an empty heap (it tests \<^verbatim>\<open>while heap\<close> first),
  so \<open>heappop\<close> is only used on non-empty lists.
\<close>

definition heappush :: "'a list \<Rightarrow> 'a \<Rightarrow> 'a list" where [eval_simps]:
  "heappush h x = h @ [x]"

definition heappop :: "'a::linorder list \<Rightarrow> 'a \<times> 'a list" where [eval_simps]:
  "heappop h = (Min (set h), remove1 (Min (set h)) h)"

lemma mset_heappush [simp]: "mset (heappush h x) = add_mset x (mset h)"
  by (simp add: heappush_def)

lemma set_heappush [simp]: "set (heappush h x) = insert x (set h)"
  by (simp add: heappush_def)

lemma length_heappush [simp]: "length (heappush h x) = Suc (length h)"
  by (simp add: heappush_def)

lemma heappop_in:
  "h \<noteq> [] \<Longrightarrow> heappop h = (x, h') \<Longrightarrow> x \<in> set h"
  by (auto simp: heappop_def)

lemma heappop_least:
  "h \<noteq> [] \<Longrightarrow> heappop h = (x, h') \<Longrightarrow> y \<in> set h \<Longrightarrow> x \<le> y"
  by (auto simp: heappop_def)

lemma heappop_mset:
  "h \<noteq> [] \<Longrightarrow> heappop h = (x, h') \<Longrightarrow> mset h = add_mset x (mset h')"
  by (auto simp: heappop_def)

lemma heappop_length:
  "h \<noteq> [] \<Longrightarrow> heappop h = (x, h') \<Longrightarrow> Suc (length h') = length h"
  by (auto simp: heappop_def length_remove1)

lemma heappop_keeps:
  "heappop h = (x, h') \<Longrightarrow> y \<in> set h \<Longrightarrow> y \<noteq> x \<Longrightarrow> y \<in> set h'"
  by (auto simp: heappop_def)

lemma heappop_subset:
  "heappop h = (x, h') \<Longrightarrow> set h' \<subseteq> set h"
  by (auto simp: heappop_def dest: set_remove1_subset[THEN subsetD])

text \<open>The pop is determined by the multiset of the heap: the order of the list is not seen.\<close>

lemma heappop_mset_cong:
  assumes "mset h1 = mset h2"
  shows "fst (heappop h1) = fst (heappop h2) \<and> mset (snd (heappop h1)) = mset (snd (heappop h2))"
proof -
  from assms have "set h1 = set h2" by (metis set_mset_mset)
  with assms show ?thesis by (simp add: heappop_def)
qed

end
