(* ===== verification/Dijkstra.thy ===== *)
theory Dijkstra
  imports HeapQ
begin

text \<open>
  The shortest-path engine: \<^verbatim>\<open>dijkstra(graph, start, end)\<close>, defined inside the
  \<^verbatim>\<open>Compute Shortest Path\<close> handler of \<^verbatim>\<open>src/ShortestRoute.py\<close> (lines 104--118).
  It is Dijkstra's algorithm with lazy deletion: the heap holds tuples
  \<open>(distance, node, path)\<close>, a popped node that is already visited is skipped, the first
  pop of \<open>end\<close> returns, and an empty heap returns \<^verbatim>\<open>(float('inf'), [])\<close>.
  The \<^verbatim>\<open>while\<close> loop is \<open>dijkstra_loop\<close>, a \<^theory_text>\<open>function\<close> whose termination is proved
  with a measure (heap length plus twice the adjacency sizes of unvisited keys); the
  inner \<^verbatim>\<open>for\<close> loop of pushes is \<open>push_neighbors\<close>.
  The section then proves that a returned path is a walk of the graph of the returned
  length, that with non-negative weights no walk is shorter, and that infinity is returned
  exactly when no walk exists.
\<close>

datatype 'w dist = Fin 'w | Infinity

text \<open>
  Distances are ordered as Python orders floats with \<^verbatim>\<open>float('inf')\<close>: finite values
  by their order, infinity above all of them.
\<close>

instantiation dist :: (linorder) linorder
begin

fun less_eq_dist :: "'a dist \<Rightarrow> 'a dist \<Rightarrow> bool" where
  "less_eq_dist (Fin a) (Fin b) \<longleftrightarrow> a \<le> b"
| "less_eq_dist x Infinity \<longleftrightarrow> True"
| "less_eq_dist Infinity (Fin b) \<longleftrightarrow> False"

definition less_dist :: "'a dist \<Rightarrow> 'a dist \<Rightarrow> bool" where
  "less_dist x y \<longleftrightarrow> x \<le> y \<and> \<not> y \<le> x"

instance
proof
  fix x y z :: "'a dist"
  show "x < y \<longleftrightarrow> x \<le> y \<and> \<not> y \<le> x" by (simp add: less_dist_def)
  show "x \<le> x" by (cases x) simp_all
  show "x \<le> y \<Longrightarrow> y \<le> z \<Longrightarrow> x \<le> z" by (cases x; cases y; cases z) simp_all
  show "x \<le> y \<Longrightarrow> y \<le> x \<Longrightarrow> x = y" by (cases x; cases y) simp_all
  show "x \<le> y \<or> y \<le> x" by (cases x; cases y) auto
qed

end

subsection \<open>The search\<close>

text \<open>Lines 115--117: push every unvisited neighbour, in adjacency order.\<close>

fun push_neighbors ::
  "'n set \<Rightarrow> 'w::plus \<Rightarrow> 'n list \<Rightarrow> ('n \<times> 'w) list \<Rightarrow> ('n, 'w) entry list \<Rightarrow> ('n, 'w) entry list"
where
  "push_neighbors visited d path [] heap = heap"
| "push_neighbors visited d path ((neighbor, weight) # es) heap =
     push_neighbors visited d path es
       (if neighbor \<notin> visited then heappush heap (d + weight, neighbor, path) else heap)"

definition loop_measure :: "('n, 'w) graph \<Rightarrow> 'a list \<Rightarrow> 'n set \<Rightarrow> nat" where
  "loop_measure g heap visited = length heap + 2 * (\<Sum>u \<in> keys g - visited. Suc (length (adj g u)))"

lemma length_push_neighbors:
  "length (push_neighbors visited d path es heap) \<le> length heap + length es"
proof (induction visited d path es heap rule: push_neighbors.induct)
  case (2 visited d path neighbor weight es heap)
  then show ?case by (auto simp: heappush_def)
qed simp

lemma loop_measure_visit:
  assumes "u \<notin> V" "length h2 \<le> length h1 + length (adj g u)" "length h1 < length h"
  shows "loop_measure g h2 (insert u V) < loop_measure g h V"
proof (cases "u \<in> keys g")
  case True
  with assms(1) have "(\<Sum>x \<in> keys g - V. Suc (length (adj g x))) =
      Suc (length (adj g u)) + (\<Sum>x \<in> keys g - insert u V. Suc (length (adj g x)))"
    by (simp add: sum_insert_diff)
  with assms show ?thesis by (simp add: loop_measure_def)
next
  case False
  then have "keys g - insert u V = keys g - V" by auto
  with False assms show ?thesis by (simp add: loop_measure_def adj_not_key)
qed

text \<open>
  The measure falls with every pass of the loop: a skipped pop shortens the heap, and a
  visit removes the node's share of the sum, which exceeds what it pushes.
\<close>

lemma loop_measure_skip:
  "heap \<noteq> [] \<Longrightarrow> (x, heap') = heappop heap \<Longrightarrow> loop_measure g heap' V < loop_measure g heap V"
  by (auto simp: loop_measure_def dest!: heappop_length [OF _ sym])

lemma loop_measure_push:
  assumes "heap \<noteq> []" "(x, heap') = heappop heap" "(d, n, p) = x" "n \<notin> V"
  shows "loop_measure g (push_neighbors (insert n V) d q (adj g n) heap') (insert n V) < loop_measure g heap V"
  using heappop_length [OF assms(1) assms(2) [symmetric]] length_push_neighbors [of "insert n V" d q "adj g n" heap']
    assms(4) by (auto intro!: loop_measure_visit)

text \<open>Lines 105--118: the \<^verbatim>\<open>while heap\<close> loop.\<close>

function dijkstra_loop ::
  "('n::linorder, 'w::linordered_ab_group_add) graph \<Rightarrow> 'n \<Rightarrow> ('n, 'w) entry list \<Rightarrow> 'n set
   \<Rightarrow> 'w dist \<times> 'n list"
where
  "dijkstra_loop g target heap visited =
     (if heap = [] then (Infinity, [])
      else case heappop heap of ((d, node, path), heap') \<Rightarrow>
        if node \<in> visited then dijkstra_loop g target heap' visited
        else (let visited' = insert node visited; path' = path @ [node] in
              if node = target then (Fin d, path')
              else dijkstra_loop g target (push_neighbors visited' d path' (adj g node) heap') visited'))"
  by pat_completeness auto
termination
  by (relation "measure (\<lambda>(g, e, heap, visited). loop_measure g heap visited)")
    (auto intro: loop_measure_skip loop_measure_push)

declare dijkstra_loop.simps [simp del, eval_simps]

text \<open>Line 105: the heap starts with \<open>(0, start, [])\<close> and nothing is visited.\<close>

definition dijkstra ::
  "('n::linorder, 'w::linordered_ab_group_add) graph \<Rightarrow> 'n \<Rightarrow> 'n \<Rightarrow> 'w dist \<times> 'n list"
where [eval_simps]:
  "dijkstra g start target = dijkstra_loop g target [(0, start, [])] {}"

subsection \<open>One iteration of the loop\<close>

text \<open>
  The four outcomes of one iteration: the heap is empty, the popped node was visited
  (line 110), it is the target (line 114), or its neighbours are pushed (lines 115--117).
\<close>

lemma loop_empty: "dijkstra_loop g t [] V = (Infinity, [])"
  by (simp add: dijkstra_loop.simps)

lemma loop_skip:
  "H \<noteq> [] \<Longrightarrow> heappop H = ((d, n, p), H') \<Longrightarrow> n \<in> V \<Longrightarrow>
   dijkstra_loop g t H V = dijkstra_loop g t H' V"
  by (simp add: dijkstra_loop.simps [of g t H V] Let_def)

lemma loop_found:
  "H \<noteq> [] \<Longrightarrow> heappop H = ((d, t, p), H') \<Longrightarrow> t \<notin> V \<Longrightarrow>
   dijkstra_loop g t H V = (Fin d, p @ [t])"
  by (simp add: dijkstra_loop.simps [of g t H V] Let_def)

lemma loop_visit:
  "H \<noteq> [] \<Longrightarrow> heappop H = ((d, n, p), H') \<Longrightarrow> n \<notin> V \<Longrightarrow> n \<noteq> t \<Longrightarrow>
   dijkstra_loop g t H V =
     dijkstra_loop g t (push_neighbors (insert n V) d (p @ [n]) (adj g n) H') (insert n V)"
  by (simp add: dijkstra_loop.simps [of g t H V] Let_def)

text \<open>
  The loop's proof rule: a property \<open>I\<close> of heap and visited set that the skip and the
  push steps keep, and that gives \<open>Q\<close> of each of the two ways to return, gives \<open>Q\<close>
  of the result. Every property of the search below is an instance.
\<close>

lemma loop_rule:
  assumes start: "I H V"
    and skip: "\<And>H V d n p H'. I H V \<Longrightarrow> H \<noteq> [] \<Longrightarrow> heappop H = ((d, n, p), H') \<Longrightarrow>
        n \<in> V \<Longrightarrow> I H' V"
    and visit: "\<And>H V d n p H'. I H V \<Longrightarrow> H \<noteq> [] \<Longrightarrow> heappop H = ((d, n, p), H') \<Longrightarrow>
        n \<notin> V \<Longrightarrow> n \<noteq> t \<Longrightarrow> I (push_neighbors (insert n V) d (p @ [n]) (adj g n) H') (insert n V)"
    and found: "\<And>H V d p H'. I H V \<Longrightarrow> H \<noteq> [] \<Longrightarrow> heappop H = ((d, t, p), H') \<Longrightarrow>
        t \<notin> V \<Longrightarrow> Q (Fin d, p @ [t])"
    and empty: "\<And>V. I [] V \<Longrightarrow> Q (Infinity, [])"
  shows "Q (dijkstra_loop g t H V)"
proof -
  have "g' = g \<Longrightarrow> t' = t \<Longrightarrow> I H V \<Longrightarrow> Q (dijkstra_loop g' t' H V)" for g' t'
  proof (induction g' t' H V rule: dijkstra_loop.induct)
    case (1 g' t' H V)
    note eqs = \<open>g' = g\<close> \<open>t' = t\<close>
    show ?case
    proof (cases "H = []")
      case True
      with "1.prems" eqs show ?thesis by (simp add: loop_empty empty)
    next
      case False
      obtain d n p H' where pop: "heappop H = ((d, n, p), H')"
        by (metis prod.exhaust)
      consider (skipped) "n \<in> V" | (target) "n \<notin> V" "n = t" | (pushed) "n \<notin> V" "n \<noteq> t"
        by blast
      then show ?thesis
      proof cases
        case skipped
        have "Q (dijkstra_loop g' t' H' V)"
          using "1.IH"(1)[OF False pop [symmetric] refl refl skipped] eqs
            skip [OF "1.prems"(3) False pop skipped] by blast
        with False pop skipped show ?thesis by (simp add: loop_skip)
      next
        case target
        with False pop eqs show ?thesis
          using found [OF "1.prems"(3) False] by (simp add: loop_found)
      next
        case pushed
        have "Q (dijkstra_loop g' t' (push_neighbors (insert n V) d (p @ [n]) (adj g' n) H') (insert n V))"
          using "1.IH"(2)[OF False pop [symmetric] refl refl pushed(1) refl refl] pushed(2) eqs
            visit [OF "1.prems"(3) False pop pushed] by blast
        with False pop pushed eqs show ?thesis by (simp add: loop_visit)
      qed
    qed
  qed
  with start show ?thesis by blast
qed

subsection \<open>Walks\<close>

text \<open>
  A walk from \<open>s\<close> is the list of its nodes together with its total weight; every step
  takes one adjacency entry, so parallel roads give walks of different weights.
\<close>

inductive walk :: "('n, 'w::monoid_add) graph \<Rightarrow> 'n \<Rightarrow> 'n list \<Rightarrow> 'w \<Rightarrow> bool"
  for g s
where
  walk_start: "walk g s [s] 0"
| walk_step: "walk g s ns c \<Longrightarrow> (x, w) \<in> set (adj g (last ns)) \<Longrightarrow> walk g s (ns @ [x]) (c + w)"

lemma walk_not_Nil: "walk g s ns c \<Longrightarrow> ns \<noteq> []"
  by (induction rule: walk.induct) auto

lemma walk_hd: "walk g s ns c \<Longrightarrow> hd ns = s"
  by (induction rule: walk.induct) (auto simp: hd_append walk_not_Nil)

subsection \<open>Invariants of the heap\<close>

lemma set_push_neighbors:
  "set (push_neighbors V d p es h) = set h \<union> {(d + w, x, p) | x w. (x, w) \<in> set es \<and> x \<notin> V}"
  by (induction V d p es h rule: push_neighbors.induct) auto

lemma popped_least:
  "H \<noteq> [] \<Longrightarrow> heappop H = ((d, n, p), H') \<Longrightarrow> (d', x, q) \<in> set H \<Longrightarrow> d \<le> d'"
  by (metis heappop_least prod_le_fst)

text \<open>Every heap entry \<open>(d, n, p)\<close> describes a walk \<open>p @ [n]\<close> of weight \<open>d\<close> through visited nodes.\<close>

definition heap_sound :: "('n, 'w::monoid_add) graph \<Rightarrow> 'n \<Rightarrow> 'n set \<Rightarrow> ('n, 'w) entry list \<Rightarrow> bool" where
  "heap_sound g s V H \<longleftrightarrow> (\<forall>(d, n, p) \<in> set H. walk g s (p @ [n]) d \<and> distinct p \<and> set p \<subseteq> V)"

lemma heap_sound_skip: "heap_sound g s V H \<Longrightarrow> heappop H = (x, H') \<Longrightarrow> heap_sound g s V H'"
  using heappop_subset by (fastforce simp: heap_sound_def)

lemma heap_sound_visit:
  assumes "heap_sound g s V H" "H \<noteq> []" "heappop H = ((d, n, p), H')" "n \<notin> V"
  shows "heap_sound g s (insert n V) (push_neighbors (insert n V) d (p @ [n]) (adj g n) H')"
proof -
  from assms(2,3) have "(d, n, p) \<in> set H" by (rule heappop_in)
  with assms(1) have w: "walk g s (p @ [n]) d" and dp: "distinct p" "set p \<subseteq> V"
    by (auto simp: heap_sound_def)
  from dp assms(4) have dist: "distinct (p @ [n])" by auto
  have "walk g s (p @ [n] @ [x]) (d + w)" if "(x, w) \<in> set (adj g n)" for x w
    using walk_step [OF w] that by simp
  moreover have "heap_sound g s (insert n V) H'"
    using heap_sound_skip [OF assms(1,3)] by (fastforce simp: heap_sound_def)
  ultimately show ?thesis
    using dist dp by (auto simp: heap_sound_def set_push_neighbors)
qed

text \<open>
  The frontier: the start node is in the heap until it is visited, and every edge that
  leaves the visited set, at the end of any walk, has an entry for its far end in the
  heap. With \<open>b\<close> the entry is also no longer than the walk plus the edge: this part
  needs non-negative weights to be kept, the rest holds for any weights.
\<close>

definition frontier ::
  "bool \<Rightarrow> ('n, 'w::linordered_ab_group_add) graph \<Rightarrow> 'n \<Rightarrow> 'n set \<Rightarrow> ('n, 'w) entry list \<Rightarrow> bool"
where
  "frontier b g s V H \<longleftrightarrow>
     (s \<notin> V \<longrightarrow> (\<exists>d p. (d, s, p) \<in> set H \<and> (b \<longrightarrow> d \<le> 0))) \<and>
     (\<forall>ns c x w. walk g s ns c \<longrightarrow> last ns \<in> V \<longrightarrow> (x, w) \<in> set (adj g (last ns)) \<longrightarrow> x \<notin> V \<longrightarrow>
        (\<exists>d p. (d, x, p) \<in> set H \<and> (b \<longrightarrow> d \<le> c + w)))"

lemma frontier_init: "frontier b g s {} [(0, s, [])]"
  by (simp add: frontier_def)

text \<open>A walk that leaves the visited set meets an entry of the heap that is not longer.\<close>

lemma frontier_entry:
  assumes fr: "frontier b g s V H" and nn: "b \<longrightarrow> nonneg_weights g"
    and "walk g s ns c" "\<not> set ns \<subseteq> V"
  shows "\<exists>d x p. (d, x, p) \<in> set H \<and> x \<notin> V \<and> (b \<longrightarrow> d \<le> c)"
  using assms(3,4)
proof (induction rule: walk.induct)
  case walk_start
  with fr show ?case by (auto simp: frontier_def)
next
  case (walk_step ns c x w)
  show ?case
  proof (cases "set ns \<subseteq> V")
    case True
    with walk_not_Nil [OF walk_step.hyps(1)] have "last ns \<in> V" by auto
    moreover from True walk_step.prems have "x \<notin> V" by auto
    ultimately show ?thesis
      using fr walk_step.hyps unfolding frontier_def by blast
  next
    case False
    with walk_step.IH obtain d y p where "(d, y, p) \<in> set H" "y \<notin> V" "b \<longrightarrow> d \<le> c"
      by blast
    moreover have "b \<longrightarrow> 0 \<le> w" using nn nonneg_adj [OF _ walk_step.hyps(2)] by blast
    ultimately show ?thesis by (meson add_increasing2)
  qed
qed

lemma frontier_skip:
  assumes "frontier b g s V H" "heappop H = ((d, n, p), H')" "n \<in> V"
  shows "frontier b g s V H'"
proof -
  have keep: "(d', x, q) \<in> set H'" if "(d', x, q) \<in> set H" "x \<notin> V" for d' x q
    using heappop_keeps [OF assms(2) that(1)] that(2) assms(3) by blast
  show ?thesis
    using assms(1) unfolding frontier_def by (meson keep)
qed

lemma frontier_visit:
  assumes fr: "frontier b g s V H" and nn: "b \<longrightarrow> nonneg_weights g"
    and ne: "H \<noteq> []" and pop: "heappop H = ((d, n, p), H')" and new: "n \<notin> V"
  shows "frontier b g s (insert n V) (push_neighbors (insert n V) d (p @ [n]) (adj g n) H')"
proof -
  let ?H = "push_neighbors (insert n V) d (p @ [n]) (adj g n) H'"
  have keep: "(d', x, q) \<in> set ?H" if "(d', x, q) \<in> set H" "x \<noteq> n" for d' x q
    using heappop_keeps [OF pop that(1)] that(2) by (auto simp: set_push_neighbors)
  have start: "\<exists>d' q. (d', s, q) \<in> set ?H \<and> (b \<longrightarrow> d' \<le> 0)" if "s \<notin> insert n V"
    using fr that keep unfolding frontier_def by blast
  have edge: "\<exists>d' q. (d', x, q) \<in> set ?H \<and> (b \<longrightarrow> d' \<le> c + w)"
    if w: "walk g s ns c" and last: "last ns \<in> insert n V"
      and e: "(x, w) \<in> set (adj g (last ns))" and x: "x \<notin> insert n V" for ns c x w
  proof (cases "last ns = n")
    case True
    have "b \<longrightarrow> d \<le> c"
    proof
      assume b
      from True walk_not_Nil [OF w] new have "\<not> set ns \<subseteq> V" by (metis last_in_set subsetD)
      with frontier_entry [OF fr nn w] obtain d' y q where "(d', y, q) \<in> set H" "b \<longrightarrow> d' \<le> c"
        by blast
      with \<open>b\<close> popped_least [OF ne pop] show "d \<le> c" by fastforce
    qed
    then have "b \<longrightarrow> d + w \<le> c + w" by (simp add: add_right_mono)
    moreover have "(d + w, x, p @ [n]) \<in> set ?H"
      using True e x by (auto simp: set_push_neighbors)
    ultimately show ?thesis by blast
  next
    case False
    with last have "last ns \<in> V" by simp
    with fr w e x obtain d' q where "(d', x, q) \<in> set H" "b \<longrightarrow> d' \<le> c + w"
      unfolding frontier_def by blast
    with keep x show ?thesis by blast
  qed
  show ?thesis
    unfolding frontier_def using start edge by blast
qed

subsection \<open>The states of the loop\<close>

text \<open>
  The loop as a transition system: the pairs of heap and visited set that the
  \<^verbatim>\<open>while\<close> loop passes through, from the initial heap, by skipping a popped node that
  was visited (line 110) or visiting it and pushing its unvisited neighbours (lines
  111--117). The search ends at the first state whose pop yields the target.
\<close>

inductive loop_reach :: "('n::linorder, 'w::linordered_ab_group_add) graph \<Rightarrow> 'n \<Rightarrow> ('n, 'w) entry list \<Rightarrow> 'n set \<Rightarrow> bool"
  for g s
where
  start: "loop_reach g s [(0, s, [])] {}"
| skip: "loop_reach g s H V \<Longrightarrow> H \<noteq> [] \<Longrightarrow> heappop H = ((d, n, p), H') \<Longrightarrow> n \<in> V \<Longrightarrow>
     loop_reach g s H' V"
| visit: "loop_reach g s H V \<Longrightarrow> H \<noteq> [] \<Longrightarrow> heappop H = ((d, n, p), H') \<Longrightarrow> n \<notin> V \<Longrightarrow>
     loop_reach g s (push_neighbors (insert n V) d (p @ [n]) (adj g n) H') (insert n V)"

subsection \<open>Correctness of the search\<close>

lemma loop_sound:
  assumes "heap_sound g s V H"
  shows "case dijkstra_loop g t H V of
           (Fin d, path) \<Rightarrow> walk g s path d \<and> last path = t \<and> distinct path
         | (Infinity, path) \<Rightarrow> path = []"
proof (rule loop_rule [where I = "\<lambda>H V. heap_sound g s V H"])
  fix H V d p H'
  assume "heap_sound g s V H" "H \<noteq> []" "heappop H = ((d, t, p), H')" "t \<notin> V"
  moreover from this have "(d, t, p) \<in> set H" by (blast intro: heappop_in)
  ultimately show "case (Fin d, p @ [t]) of
           (Fin d, path) \<Rightarrow> walk g s path d \<and> last path = t \<and> distinct path
         | (Infinity, path) \<Rightarrow> path = []"
    by (auto simp: heap_sound_def)
qed (auto intro: assms heap_sound_skip heap_sound_visit)

lemma loop_optimal:
  assumes "nonneg_weights g" "frontier True g s V H" "t \<notin> V"
  shows "case dijkstra_loop g t H V of
           (Fin d, path) \<Rightarrow> (\<forall>ns c. walk g s ns c \<longrightarrow> last ns = t \<longrightarrow> d \<le> c)
         | (Infinity, path) \<Rightarrow> True"
proof (rule loop_rule [where I = "\<lambda>H V. frontier True g s V H \<and> t \<notin> V"])
  fix H V d p H'
  assume fr: "frontier True g s V H \<and> t \<notin> V" and ne: "H \<noteq> []"
    and pop: "heappop H = ((d, t, p), H')"
  have "d \<le> c" if w: "walk g s ns c" and l: "last ns = t" for ns c
  proof -
    from fr l walk_not_Nil [OF w] have "\<not> set ns \<subseteq> V" by (metis last_in_set subsetD)
    with frontier_entry [OF _ _ w] fr assms(1) obtain d' y q where "(d', y, q) \<in> set H" "d' \<le> c"
      by blast
    with popped_least [OF ne pop] show ?thesis by fastforce
  qed
  then show "case (Fin d, p @ [t]) of
           (Fin d, path) \<Rightarrow> (\<forall>ns c. walk g s ns c \<longrightarrow> last ns = t \<longrightarrow> d \<le> c)
         | (Infinity, path) \<Rightarrow> True"
    by simp
qed (use assms in \<open>auto intro: frontier_skip frontier_visit\<close>)

lemma loop_complete:
  fixes g :: "('n::linorder, 'w::linordered_ab_group_add) graph"
  assumes "frontier False g s V H" "t \<notin> V"
  shows "case dijkstra_loop g t H V of
           (Fin d, path) \<Rightarrow> True
         | (Infinity, path) \<Rightarrow> \<not> (\<exists>ns c. walk g s ns c \<and> last ns = t)"
proof (rule loop_rule [where I = "\<lambda>H V. frontier False g s V H \<and> t \<notin> V"])
  fix V
  assume fr: "frontier False g s V [] \<and> t \<notin> V"
  have False if w: "walk g s ns c" and l: "last ns = t" for ns c
  proof -
    from fr l walk_not_Nil [OF w] have "\<not> set ns \<subseteq> V" by (metis last_in_set subsetD)
    with frontier_entry [of False g s V "[]", OF _ _ w] fr show False by simp
  qed
  then show "case (Infinity :: 'w dist, [] :: 'n list) of
           (Fin d, path) \<Rightarrow> True
         | (Infinity, path) \<Rightarrow> \<not> (\<exists>ns c. walk g s ns c \<and> last ns = t)"
    by auto
qed (use assms in \<open>auto intro: frontier_skip frontier_visit\<close>)

lemma heap_sound_init: "heap_sound g s {} [(0, s, [])]"
  by (simp add: heap_sound_def walk_start)

lemma frontier_dijkstra_init: "frontier b g s {} [(0, s, [])]"
  by (simp add: frontier_def)

lemma dijkstra_loop_sound:
  "case dijkstra g s t of
     (Fin d, path) \<Rightarrow> walk g s path d \<and> last path = t \<and> distinct path
   | (Infinity, path) \<Rightarrow> path = []"
  unfolding dijkstra_def by (rule loop_sound [OF heap_sound_init])

lemma dijkstra_walk:
  "dijkstra g s t = (Fin d, path) \<Longrightarrow> walk g s path d \<and> last path = t \<and> distinct path"
  using dijkstra_loop_sound [of g s t] by simp

lemma dijkstra_least:
  assumes "nonneg_weights g" "dijkstra g s t = (Fin d, path)" "walk g s ns c" "last ns = t"
  shows "d \<le> c"
proof -
  have "case dijkstra_loop g t [(0, s, [])] {} of
          (Fin d, path) \<Rightarrow> (\<forall>ns c. walk g s ns c \<longrightarrow> last ns = t \<longrightarrow> d \<le> c)
        | (Infinity, path) \<Rightarrow> True"
    by (rule loop_optimal [OF assms(1) frontier_dijkstra_init]) simp
  with assms(2-4) show ?thesis by (simp add: dijkstra_def)
qed

lemma dijkstra_Infinity_unreachable:
  "dijkstra g s t = (Infinity, path) \<Longrightarrow> walk g s ns c \<Longrightarrow> last ns = t \<Longrightarrow> False"
  using loop_complete [OF frontier_dijkstra_init, of t g s] by (auto simp: dijkstra_def)

lemma dijkstra_Infinity_path: "dijkstra g s t = (Infinity, path) \<Longrightarrow> path = []"
  using dijkstra_loop_sound [of g s t] by simp

lemma mset_push_neighbors_cong:
  "mset h1 = mset h2 \<Longrightarrow> mset (push_neighbors V d p es h1) = mset (push_neighbors V d p es h2)"
proof (induction V d p es h1 arbitrary: h2 rule: push_neighbors.induct)
  case (2 V d p neighbor weight es h1)
  let ?e = "(d + weight, neighbor, p)"
  have "mset (if neighbor \<notin> V then heappush h1 ?e else h1) =
        mset (if neighbor \<notin> V then heappush h2 ?e else h2)"
    using "2.prems" by simp
  then have "mset (push_neighbors V d p es (if neighbor \<notin> V then heappush h1 ?e else h1)) =
             mset (push_neighbors V d p es (if neighbor \<notin> V then heappush h2 ?e else h2))"
    by (rule "2.IH")
  then show ?case by (simp only: push_neighbors.simps)
qed simp

text \<open>The loop reads the heap only through its multiset of entries.\<close>

lemma loop_mset_cong:
  "mset H1 = mset H2 \<Longrightarrow> dijkstra_loop g t H1 V = dijkstra_loop g t H2 V"
proof (induction g t H1 V arbitrary: H2 rule: dijkstra_loop.induct)
  case (1 g t H V)
  show ?case
  proof (cases "H = []")
    case True
    with "1.prems" show ?thesis by simp
  next
    case False
    with "1.prems" have ne2: "H2 \<noteq> []" by auto
    obtain d n p H' where pop: "heappop H = ((d, n, p), H')" by (metis prod.exhaust)
    have c: "fst (heappop H) = fst (heappop H2)" "mset (snd (heappop H)) = mset (snd (heappop H2))"
      using heappop_mset_cong [OF "1.prems"] by auto
    define H2' where "H2' = snd (heappop H2)"
    have pop2: "heappop H2 = ((d, n, p), H2')"
      using c(1) pop unfolding H2'_def by (metis fst_conv prod.collapse)
    have ms: "mset H' = mset H2'"
      using c(2) pop unfolding H2'_def by simp
    consider (skipped) "n \<in> V" | (target) "n \<notin> V" "n = t" | (pushed) "n \<notin> V" "n \<noteq> t"
      by blast
    then show ?thesis
    proof cases
      case skipped
      have "dijkstra_loop g t H V = dijkstra_loop g t H' V"
        by (rule loop_skip [OF False pop skipped])
      also have "\<dots> = dijkstra_loop g t H2' V"
        by (rule "1.IH"(1) [OF False pop [symmetric] refl refl skipped ms])
      also have "\<dots> = dijkstra_loop g t H2 V"
        by (rule loop_skip [OF ne2 pop2 skipped, symmetric])
      finally show ?thesis .
    next
      case target
      then show ?thesis
        using loop_found [OF False, of d n p H' V g] loop_found [OF ne2, of d n p H2' V g] pop pop2
        by simp
    next
      case pushed
      let ?V = "insert n V" and ?p = "p @ [n]"
      have "dijkstra_loop g t H V = dijkstra_loop g t (push_neighbors ?V d ?p (adj g n) H') ?V"
        by (rule loop_visit [OF False pop pushed])
      also have "\<dots> = dijkstra_loop g t (push_neighbors ?V d ?p (adj g n) H2') ?V"
        by (rule "1.IH"(2) [OF False pop [symmetric] refl refl pushed(1) refl refl pushed(2)
              mset_push_neighbors_cong [OF ms]])
      also have "\<dots> = dijkstra_loop g t H2 V"
        by (rule loop_visit [OF ne2 pop2 pushed, symmetric])
      finally show ?thesis .
    qed
  qed
qed

subsection \<open>Properties of the engine\<close>

text \<open>
  C1. The search returns a real route: when \<open>dijkstra\<close> returns a finite distance
  \<open>d\<close> and a path, the path starts at the source, ends at the target, visits no node
  twice, and is a walk of the road graph whose road lengths add up to \<open>d\<close>. This holds
  for every graph, negative weights included.
\<close>

theorem dijkstra_sound:
  "dijkstra g s t = (Fin d, path) \<Longrightarrow>
   walk g s path d \<and> hd path = s \<and> last path = t \<and> distinct path"
  using dijkstra_walk walk_hd by metis

theorem dijkstra_sound_witness:
  "walk [(''A'', [(''B'', 1), (''C'', 10)]), (''B'', [(''A'', 1), (''C'', 2)]),
         (''C'', [(''B'', 2), (''A'', 10)])] ''A'' [''A'', ''B'', ''C''] (3::int)"
proof -
  have "dijkstra [(''A'', [(''B'', 1), (''C'', 10)]), (''B'', [(''A'', 1), (''C'', 2)]),
         (''C'', [(''B'', 2), (''A'', 10)])] ''A'' ''C'' = (Fin (3::int), [''A'', ''B'', ''C''])"
    by (simp add: eval_simps)
  from dijkstra_sound [OF this] show ?thesis by simp
qed

text \<open>
  C2. With non-negative road lengths the distance returned is the least: no walk from the
  source to the target is shorter than the finite distance \<open>dijkstra\<close> returns.
\<close>

theorem dijkstra_optimal:
  assumes "nonneg_weights g" "dijkstra g s t = (Fin d, path)" "walk g s ns c" "last ns = t"
  shows "d \<le> c"
  using assms by (rule dijkstra_least)

theorem dijkstra_optimal_witness:
  "(3::int) \<le> 10"
proof -
  let ?g = "[(''A'', [(''B'', 1), (''C'', 10)]), (''B'', [(''A'', 1), (''C'', 2)]),
             (''C'', [(''B'', 2), (''A'', 10)])] :: (string, int) graph"
  have nn: "nonneg_weights ?g" by (simp add: nonneg_weights_def)
  have res: "dijkstra ?g ''A'' ''C'' = (Fin 3, [''A'', ''B'', ''C''])"
    by (simp add: eval_simps)
  have "walk ?g ''A'' ([''A''] @ [''C'']) (0 + 10)"
    by (rule walk_step [OF walk_start]) (simp add: adj_def)
  then have w: "walk ?g ''A'' [''A'', ''C''] 10" by simp
  from dijkstra_optimal [OF nn res w] show ?thesis by simp
qed

text \<open>
  C9. Every state of the loop is sound: each heap entry \<open>(d, n, p)\<close> records a walk
  \<open>p @ [n]\<close> of length \<open>d\<close> from the source whose earlier nodes are distinct and
  visited, and every visited node is reachable from the source.
\<close>

theorem loop_states_sound:
  "loop_reach g s H V \<Longrightarrow>
   (\<forall>(d, n, p) \<in> set H. walk g s (p @ [n]) d \<and> distinct p \<and> set p \<subseteq> V) \<and>
   (\<forall>v \<in> V. \<exists>ns c. walk g s ns c \<and> last ns = v)"
proof (induction rule: loop_reach.induct)
  case start
  show ?case by (simp add: walk_start)
next
  case (skip H V d n p H')
  with heap_sound_skip [of g s V H "(d, n, p)" H'] show ?case by (simp add: heap_sound_def)
next
  case (visit H V d n p H')
  from visit.hyps(2,3) have "(d, n, p) \<in> set H" by (rule heappop_in)
  with visit.IH have "walk g s (p @ [n]) d" by auto
  with visit heap_sound_visit [of g s V H d n p H'] show ?case by (auto simp: heap_sound_def)
qed

theorem loop_states_sound_witness:
  "walk [(''A'', [(''B'', 1), (''C'', 10)]), (''B'', [(''A'', 1), (''C'', 2)]), (''C'', [(''B'', 2), (''A'', 10)])]
     ''A'' [''A'', ''C''] (10::int)"
proof -
  let ?g = "[(''A'', [(''B'', 1), (''C'', 10)]), (''B'', [(''A'', 1), (''C'', 2)]),
             (''C'', [(''B'', 2), (''A'', 10)])] :: (string, int) graph"
  have pop: "heappop [(0, ''A'', [])] = ((0 :: int, ''A'', []), [])" by (simp add: eval_simps)
  have "loop_reach ?g ''A'' (push_neighbors {''A''} 0 ([] @ [''A'']) (adj ?g ''A'') []) {''A''}"
    using loop_reach.visit [OF loop_reach.start _ pop] by simp
  moreover have "push_neighbors {''A''} 0 ([] @ [''A'']) (adj ?g ''A'') [] =
      [(1, ''B'', [''A'']), (10, ''C'', [''A''])]"
    by (simp add: eval_simps)
  ultimately have "loop_reach ?g ''A'' [(1, ''B'', [''A'']), (10, ''C'', [''A''])] {''A''}" by simp
  from loop_states_sound [OF this] show ?thesis by simp
qed

text \<open>
  C21. Source and target equal: the first pop finds the target, and the search returns
  distance 0 and the one-node path, whatever the graph.
\<close>

theorem dijkstra_same_node: "dijkstra g x x = (Fin 0, [x])"
  by (simp add: dijkstra_def loop_found heappop_def)

end
