(* ===== verification/GraphStore.thy ===== *)
theory GraphStore
  imports Prelude
begin

text \<open>
  The graph store: the part of the \<^verbatim>\<open>Submit Road\<close> handler of
  \<^verbatim>\<open>src/ShortestRoute.py\<close> that changes the dictionary \<^verbatim>\<open>graph\<close> (lines 45--51).
  A missing key is first bound to \<^verbatim>\<open>[]\<close> at the end of the dictionary
  (\<open>add_key\<close>), then \<^verbatim>\<open>graph[k].append(e)\<close> appends to the key's list
  (\<open>append_adj\<close>); indexing a missing key raises KeyError, which the model keeps as
  \<open>None\<close>. \<open>add_road_edges\<close> runs the four statements in the code's order and returns
  \<open>Inl\<close> of the dictionary as far as it was changed if an append raised, \<open>Inr\<close> of the
  new dictionary otherwise. The lemmas show that no append raises, how every adjacency
  list changes, and that the store stays symmetric: every road is recorded at both ends
  the same number of times.
\<close>

text \<open>Lines 45--48: \<^verbatim>\<open>if k not in graph: graph[k] = []\<close>.\<close>

definition add_key :: "('n, 'w) graph \<Rightarrow> 'n \<Rightarrow> ('n, 'w) graph" where
  "add_key g k = (if k \<in> keys g then g else g @ [(k, [])])"

text \<open>Lines 50--51: \<^verbatim>\<open>graph[k].append(e)\<close>; \<open>None\<close> is the KeyError of a missing key.\<close>

fun append_adj :: "'n \<Rightarrow> 'n \<times> 'w \<Rightarrow> ('n, 'w) graph \<Rightarrow> ('n, 'w) graph option" where
  "append_adj k e [] = None"
| "append_adj k e ((k', es) # g) =
     (if k = k' then Some ((k', es @ [e]) # g) else map_option (Cons (k', es)) (append_adj k e g))"

definition add_road_edges ::
  "('n, 'w) graph \<Rightarrow> 'n \<Rightarrow> 'n \<Rightarrow> 'w \<Rightarrow> ('n, 'w) graph + ('n, 'w) graph"
where
  "add_road_edges g src dst d =
     (let g2 = add_key (add_key g src) dst in
      case append_adj src (dst, d) g2 of
        None \<Rightarrow> Inl g2
      | Some g3 \<Rightarrow> (case append_adj dst (src, d) g3 of None \<Rightarrow> Inl g3 | Some g4 \<Rightarrow> Inr g4))"

text \<open>
  Symmetry of the store (spec section 3): for every pair of nodes and every weight, the
  road appears in the first node's list as often as the reverse road in the second's.
\<close>

definition symmetric :: "('n, 'w) graph \<Rightarrow> bool" where
  "symmetric g \<longleftrightarrow> (\<forall>u v w. count (mset (adj g u)) (v, w) = count (mset (adj g v)) (u, w))"

subsection \<open>The dictionary operations\<close>

lemma keys_add_key [simp]: "keys (add_key g k) = insert k (keys g)"
  by (auto simp: add_key_def)

lemma adj_add_key [adj_simps]: "adj (add_key g k) u = adj g u"
  by (auto simp: add_key_def adj_simps)

lemma distinct_add_key: "distinct (map fst g) \<Longrightarrow> distinct (map fst (add_key g k))"
  by (auto simp: add_key_def keys_def)

lemma append_adj_key: "k \<in> keys g \<Longrightarrow> \<exists>g'. append_adj k e g = Some g'"
  by (induction k e g rule: append_adj.induct) auto

lemma append_adj_Some:
  "append_adj k e g = Some g' \<Longrightarrow>
   keys g' = keys g \<and> map fst g' = map fst g \<and> (\<forall>u. adj g' u = adj g u @ (if u = k then [e] else []))"
  by (induction k e g arbitrary: g' rule: append_adj.induct)
    (auto simp: adj_simps map_option_eq_Some split: if_splits)

lemma add_road_edges_Inr:
  "\<exists>g'. add_road_edges g src dst d = Inr g' \<and>
     map fst g' = map fst (add_key (add_key g src) dst) \<and>
     (\<forall>u. adj g' u = adj g u @ (if u = src then [(dst, d)] else []) @ (if u = dst then [(src, d)] else []))"
proof -
  let ?g2 = "add_key (add_key g src) dst"
  obtain g3 where g3: "append_adj src (dst, d) ?g2 = Some g3"
    using append_adj_key [of src ?g2] by auto
  from append_adj_Some [OF g3] have "dst \<in> keys g3" by simp
  then obtain g4 where g4: "append_adj dst (src, d) g3 = Some g4"
    by (metis append_adj_key)
  from append_adj_Some [OF g3] append_adj_Some [OF g4] show ?thesis
    by (auto simp: add_road_edges_def g3 g4 adj_add_key)
qed

lemma add_road_edges_result:
  "add_road_edges g src dst d = Inr g' \<Longrightarrow>
   map fst g' = map fst (add_key (add_key g src) dst) \<and>
   (\<forall>u. adj g' u = adj g u @ (if u = src then [(dst, d)] else []) @ (if u = dst then [(src, d)] else []))"
  using add_road_edges_Inr [of g src dst d] by auto

lemma symmetric_Nil: "symmetric []"
  by (simp add: symmetric_def adj_Nil)

lemma symmetric_add_road:
  assumes "symmetric g" "add_road_edges g src dst d = Inr g'"
  shows "symmetric g'"
proof -
  from add_road_edges_result [OF assms(2)]
  have a: "adj g' u = adj g u @ (if u = src then [(dst, d)] else []) @ (if u = dst then [(src, d)] else [])"
    for u by blast
  show ?thesis
    using assms(1) unfolding symmetric_def a by auto
qed

lemma keys_add_road:
  "add_road_edges g src dst d = Inr g' \<Longrightarrow> keys g' = insert src (insert dst (keys g))"
proof -
  assume "add_road_edges g src dst d = Inr g'"
  from add_road_edges_result [OF this]
  have "set (map fst g') = set (map fst (add_key (add_key g src) dst))" by simp
  then have "keys g' = keys (add_key (add_key g src) dst)" by (simp only: keys_def)
  then show ?thesis by auto
qed

lemma distinct_add_road:
  "distinct (map fst g) \<Longrightarrow> add_road_edges g src dst d = Inr g' \<Longrightarrow> distinct (map fst g')"
  using add_road_edges_result [of g src dst d g'] by (simp add: distinct_add_key)

lemma symmetric_adj:
  "symmetric g \<Longrightarrow> (v, w) \<in> set (adj g u) \<Longrightarrow> (u, w) \<in> set (adj g v)"
  unfolding symmetric_def by (metis count_mset_0_iff)

subsection \<open>Properties of the store\<close>

text \<open>
  C6. Adding a road never raises KeyError, and afterwards every adjacency list is the old
  one followed by \<open>(dst, d)\<close> if the node is \<open>src\<close> and by \<open>(src, d)\<close> if it is
  \<open>dst\<close>; the keys are the old keys followed by \<open>src\<close> and then \<open>dst\<close> where new.
\<close>

theorem add_road_adjacency:
  "\<exists>g'. add_road_edges g src dst d = Inr g' \<and>
     map fst g' = map fst g @ (if src \<in> keys g then [] else [src]) @
                  (if dst \<in> keys g \<or> dst = src then [] else [dst]) \<and>
     (\<forall>u. adj g' u = adj g u @ (if u = src then [(dst, d)] else []) @ (if u = dst then [(src, d)] else []))"
  using add_road_edges_Inr [of g src dst d] by (auto simp: add_key_def)

text \<open>
  C23. Adding a road keeps the store symmetric: each road is recorded at its two ends
  the same number of times, for every weight.
\<close>

theorem add_road_symmetric:
  "symmetric g \<Longrightarrow> add_road_edges g src dst d = Inr g' \<Longrightarrow> symmetric g'"
  by (rule symmetric_add_road)

theorem add_road_symmetric_witness:
  "symmetric (projr (add_road_edges [(''A'', [(''B'', 1)]), (''B'', [(''A'', 1::int)])] ''B'' ''C'' 2))"
proof -
  have s: "symmetric [(''A'', [(''B'', 1)]), (''B'', [(''A'', 1::int)])]"
    by (simp add: symmetric_def adj_def)
  have r: "add_road_edges [(''A'', [(''B'', 1)]), (''B'', [(''A'', 1::int)])] ''B'' ''C'' 2 =
           Inr [(''A'', [(''B'', 1)]), (''B'', [(''A'', 1), (''C'', 2)]), (''C'', [(''B'', 2)])]"
    by (simp add: add_road_edges_def add_key_def)
  from add_road_symmetric [OF s r] show ?thesis by (simp add: r)
qed

end
