(* ===== verification/PyFloat.thy ===== *)
theory PyFloat
  imports Complex_Main Prelude
begin

text \<open>
  Python's \<^verbatim>\<open>float(dist)\<close> on the distance text (\<^verbatim>\<open>src/ShortestRoute.py\<close>, line 41).
  \<^verbatim>\<open>float\<close> is a builtin, not code of the repository; the model follows the grammar of
  its string argument: surrounding whitespace is stripped, an optional sign comes first,
  then either \<^verbatim>\<open>inf\<close>, \<^verbatim>\<open>infinity\<close> or \<^verbatim>\<open>nan\<close> in any letter case, or a decimal
  literal \<open>digits [. digits] | . digits\<close> with an optional exponent
  \<open>(e|E) [sign] digits\<close>, where a single \<^verbatim>\<open>_\<close> may separate two digits. Anything
  else raises ValueError, here \<open>None\<close>. Strings are byte lists, so only ASCII
  whitespace and digits are recognised. A finite literal denotes its exact rational
  value: rounding to the nearest double (and overflow of huge exponents to infinity)
  is not modelled.
\<close>

datatype pyfloat = PyNum rat | PyInf bool | PyNaN

definition py_isspace :: "char \<Rightarrow> bool" where
  "py_isspace c \<longleftrightarrow> (of_char c :: nat) \<in> {9, 10, 11, 12, 13, 28, 29, 30, 31, 32}"

definition py_strip :: "string \<Rightarrow> string" where
  "py_strip s = rev (dropWhile py_isspace (rev (dropWhile py_isspace s)))"

definition py_lower :: "char \<Rightarrow> char" where
  "py_lower c = (if CHR ''A'' \<le> c \<and> c \<le> CHR ''Z'' then char_of (of_char c + (32::nat)) else c)"

definition is_digit :: "char \<Rightarrow> bool" where
  "is_digit c \<longleftrightarrow> CHR ''0'' \<le> c \<and> c \<le> CHR ''9''"

definition digits_value :: "string \<Rightarrow> nat" where
  "digits_value ds = foldl (\<lambda>n c. 10 * n + (of_char c - 48)) 0 ds"

text \<open>After a first digit: further digits, each possibly preceded by one underscore.\<close>

fun digit_tail :: "string \<Rightarrow> string \<times> string" where
  "digit_tail [] = ([], [])"
| "digit_tail (c # cs) =
     (if is_digit c then (case digit_tail cs of (ds, r) \<Rightarrow> (c # ds, r))
      else if c = CHR ''_'' then
        (case cs of
          d # cs' \<Rightarrow> if is_digit d then (case digit_tail cs' of (ds, r) \<Rightarrow> (d # ds, r)) else ([], c # cs)
        | [] \<Rightarrow> ([], c # cs))
      else ([], c # cs))"

definition digitpart :: "string \<Rightarrow> (string \<times> string) option" where
  "digitpart s =
     (case s of
       c # cs \<Rightarrow> if is_digit c then (case digit_tail cs of (ds, r) \<Rightarrow> Some (c # ds, r)) else None
     | [] \<Rightarrow> None)"

text \<open>\<open>number ::= [digitpart] . digitpart | digitpart [.]\<close>: integer digits, fraction digits, rest.\<close>

definition parse_number :: "string \<Rightarrow> (string \<times> string \<times> string) option" where
  "parse_number s =
     (case digitpart s of
       Some (ip, r) \<Rightarrow>
         (case r of
           c # r' \<Rightarrow>
             if c = CHR ''.'' then
               (case digitpart r' of Some (fp, r'') \<Rightarrow> Some (ip, fp, r'') | None \<Rightarrow> Some (ip, [], r'))
             else Some (ip, [], r)
         | [] \<Rightarrow> Some (ip, [], []))
     | None \<Rightarrow>
         (case s of
           c # r' \<Rightarrow>
             if c = CHR ''.'' then
               (case digitpart r' of Some (fp, r'') \<Rightarrow> Some ([], fp, r'') | None \<Rightarrow> None)
             else None
         | [] \<Rightarrow> None))"

definition parse_sign :: "string \<Rightarrow> bool \<times> string" where
  "parse_sign s =
     (case s of
       c # r \<Rightarrow> if c = CHR ''-'' then (True, r) else if c = CHR ''+'' then (False, r) else (False, s)
     | [] \<Rightarrow> (False, []))"

text \<open>The rest after the number: nothing, or an exponent that ends the text.\<close>

definition parse_exponent :: "string \<Rightarrow> int option" where
  "parse_exponent r =
     (case r of
       [] \<Rightarrow> Some 0
     | c # r' \<Rightarrow>
         if c = CHR ''e'' \<or> c = CHR ''E'' then
           (case parse_sign r' of
             (neg, r'') \<Rightarrow>
               (case digitpart r'' of
                 Some (ds, []) \<Rightarrow> Some (if neg then - int (digits_value ds) else int (digits_value ds))
               | _ \<Rightarrow> None))
         else None)"

definition decimal_value :: "string \<Rightarrow> string \<Rightarrow> int \<Rightarrow> rat" where
  "decimal_value ip fp e =
     of_nat (digits_value (ip @ fp)) / 10 ^ length fp *
     (if 0 \<le> e then 10 ^ nat e else 1 / 10 ^ nat (- e))"

definition parse_float :: "string \<Rightarrow> pyfloat option" where
  "parse_float s =
     (let t = py_strip s in
      case parse_sign t of
        (neg, u) \<Rightarrow>
          (let w = map py_lower u in
           if w = ''inf'' \<or> w = ''infinity'' then Some (PyInf neg)
           else if w = ''nan'' then Some PyNaN
           else
             (case parse_number u of
               None \<Rightarrow> None
             | Some (ip, fp, r) \<Rightarrow>
                 (case parse_exponent r of
                   None \<Rightarrow> None
                 | Some e \<Rightarrow>
                     Some (PyNum (if neg then - decimal_value ip fp e else decimal_value ip fp e))))))"

lemmas float_eval [eval_simps] =
  parse_float_def py_strip_def py_isspace_def py_lower_def is_digit_def digits_value_def
  digitpart_def parse_number_def parse_sign_def parse_exponent_def decimal_value_def

end
