(* ===== verification/Highlight.thy ===== *)
theory Highlight
  imports Prelude
begin

text \<open>
  Highlighting of the shortest path (\<^verbatim>\<open>src/ShortestRoute.py\<close>, lines 137--147): an
  edge \<open>(u, v)\<close> of the drawn graph is red when both ends are on the path and their
  first positions in the path differ by one, black otherwise. \<^verbatim>\<open>path.index(x)\<close> is
  \<open>index_of\<close>; the code calls it only after testing \<^verbatim>\<open>x in path\<close>, so its ValueError
  on a missing element never arises and \<open>index_of\<close> may return the length there.
  The lemmas show that on a path without repeated nodes, which is what the search returns,
  an edge is red exactly when its ends are consecutive on the path.
\<close>

datatype edge_color = Red | Black

fun index_of :: "'a list \<Rightarrow> 'a \<Rightarrow> nat" where
  "index_of [] x = 0"
| "index_of (y # ys) x = (if y = x then 0 else Suc (index_of ys x))"

definition edge_color :: "'n list \<Rightarrow> 'n \<times> 'n \<Rightarrow> edge_color" where
  "edge_color path e =
     (case e of (u, v) \<Rightarrow>
        if u \<in> set path \<and> v \<in> set path then
          (let idx_u = index_of path u; idx_v = index_of path v in
           if \<bar>int idx_u - int idx_v\<bar> = 1 then Red else Black)
        else Black)"

definition edge_colors :: "'n list \<Rightarrow> ('n \<times> 'n) list \<Rightarrow> edge_color list" where
  "edge_colors path es = map (edge_color path) es"

text \<open>Consecutive nodes of a path, in either direction.\<close>

definition consecutive :: "'n list \<Rightarrow> 'n \<Rightarrow> 'n \<Rightarrow> bool" where
  "consecutive path u v \<longleftrightarrow>
     (\<exists>i. Suc i < length path \<and> ((path ! i = u \<and> path ! Suc i = v) \<or> (path ! i = v \<and> path ! Suc i = u)))"

lemma index_of_nth: "x \<in> set xs \<Longrightarrow> index_of xs x < length xs \<and> xs ! index_of xs x = x"
  by (induction xs) auto

lemma index_of_distinct: "distinct xs \<Longrightarrow> i < length xs \<Longrightarrow> index_of xs (xs ! i) = i"
proof (induction xs arbitrary: i)
  case (Cons y ys)
  then show ?case by (cases i) (auto simp: nth_mem)
qed simp

lemma edge_color_distinct:
  assumes "distinct path"
  shows "edge_color path (u, v) = Red \<longleftrightarrow> consecutive path u v"
proof
  assume red: "edge_color path (u, v) = Red"
  then have u: "u \<in> set path" and v: "v \<in> set path"
    by (auto simp: edge_color_def split: if_splits)
  let ?i = "index_of path u" and ?j = "index_of path v"
  from red u v have d: "\<bar>int ?i - int ?j\<bar> = 1"
    by (auto simp: edge_color_def Let_def split: if_splits)
  from u v have "?i < length path" "path ! ?i = u" "?j < length path" "path ! ?j = v"
    by (auto simp: index_of_nth)
  moreover from d have "?j = Suc ?i \<or> ?i = Suc ?j" by arith
  ultimately show "consecutive path u v"
    unfolding consecutive_def by (metis)
next
  assume "consecutive path u v"
  then obtain i where i: "Suc i < length path"
    and e: "(path ! i = u \<and> path ! Suc i = v) \<or> (path ! i = v \<and> path ! Suc i = u)"
    by (auto simp: consecutive_def)
  from i e have mem: "u \<in> set path" "v \<in> set path" by (auto simp: nth_mem)
  from i e assms have "{index_of path u, index_of path v} = {i, Suc i}"
    by (auto simp: index_of_distinct)
  with mem show "edge_color path (u, v) = Red"
    by (auto simp: edge_color_def Let_def doubleton_eq_iff)
qed

lemma edge_colors_nth:
  "distinct path \<Longrightarrow> i < length es \<Longrightarrow>
   edge_colors path es ! i = Red \<longleftrightarrow> consecutive path (fst (es ! i)) (snd (es ! i))"
  using edge_color_distinct [of path "fst (es ! i)" "snd (es ! i)"] by (simp add: edge_colors_def)

subsection \<open>Property of the highlighting\<close>

text \<open>
  C22. On a path without repeated nodes, an edge is coloured red exactly when its two ends
  are consecutive on the path, in either direction; an edge joining two path nodes that
  are not consecutive (a shortcut the path does not take) stays black.
\<close>

theorem edge_colors_consecutive:
  "distinct path \<Longrightarrow> i < length es \<Longrightarrow>
   (edge_colors path es ! i = Red \<longleftrightarrow> consecutive path (fst (es ! i)) (snd (es ! i)))"
  by (rule edge_colors_nth)

theorem edge_colors_consecutive_witness:
  "edge_colors [''A'', ''B'', ''C''] [(''A'', ''B''), (''A'', ''C''), (''B'', ''C'')] = [Red, Black, Red] \<and>
   \<not> consecutive [''A'', ''B'', ''C''] ''A'' ''C''"
proof -
  have c: "edge_colors [''A'', ''B'', ''C''] [(''A'', ''B''), (''A'', ''C''), (''B'', ''C'')] = [Red, Black, Red]"
    by (simp add: edge_colors_def edge_color_def)
  have "distinct [''A'', ''B'', ''C'']" by simp
  from edge_colors_consecutive [OF this, of 1 "[(''A'', ''B''), (''A'', ''C''), (''B'', ''C'')]"] c
  show ?thesis by simp
qed

end
