(* ===== verification/Drawing.thy ===== *)
theory Drawing
  imports Prelude
begin

text \<open>
  The networkx graph that \<^verbatim>\<open>src/ShortestRoute.py\<close> builds for drawing (lines 70--73 and
  129--132): \<^verbatim>\<open>G = nx.Graph()\<close>, then \<^verbatim>\<open>G.add_edge(src, dest, weight=weight)\<close> for every
  adjacency entry, in dictionary order. networkx is a library; the model follows its
  documented data structure: an adjacency dictionary from node to a dictionary from
  neighbour to the edge's attributes, both in insertion order. \<^verbatim>\<open>add_edge\<close> adds
  missing nodes (first \<open>u\<close>, then \<open>v\<close>) and sets the shared attribute dictionary of
  \<open>(u, v)\<close> and \<open>(v, u)\<close>; a repeated pair keeps its place and takes the new weight.
  \<^verbatim>\<open>G.edges()\<close> lists, node by node, the neighbours not yet passed as nodes. The
  lemmas show that the drawing has one edge per connected pair of locations, and that
  for parallel roads the label is the weight of the road added last.
\<close>

type_synonym ('n, 'w) nxgraph = "('n \<times> ('n \<times> 'w) list) list"

definition nx_add_node :: "('n, 'w) nxgraph \<Rightarrow> 'n \<Rightarrow> ('n, 'w) nxgraph" where
  "nx_add_node a u = (if u \<in> set (map fst a) then a else a @ [(u, [])])"

fun set_attr :: "'n \<Rightarrow> 'w \<Rightarrow> ('n \<times> 'w) list \<Rightarrow> ('n \<times> 'w) list" where
  "set_attr v w [] = [(v, w)]"
| "set_attr v w ((x, w') # xs) = (if x = v then (x, w) # xs else (x, w') # set_attr v w xs)"

fun nx_set_nbr :: "'n \<Rightarrow> 'n \<Rightarrow> 'w \<Rightarrow> ('n, 'w) nxgraph \<Rightarrow> ('n, 'w) nxgraph" where
  "nx_set_nbr u v w [] = []"
| "nx_set_nbr u v w ((k, ns) # a) =
     (if k = u then (k, set_attr v w ns) # a else (k, ns) # nx_set_nbr u v w a)"

definition nx_add_edge :: "('n, 'w) nxgraph \<Rightarrow> 'n \<Rightarrow> 'n \<Rightarrow> 'w \<Rightarrow> ('n, 'w) nxgraph" where
  "nx_add_edge a u v w = nx_set_nbr v u w (nx_set_nbr u v w (nx_add_node (nx_add_node a u) v))"

text \<open>Lines 70--73 (and 129--132): every adjacency entry of the dictionary, in order.\<close>

definition nx_graph :: "('n, 'w) graph \<Rightarrow> ('n, 'w) nxgraph" where
  "nx_graph g = foldl (\<lambda>a (src, es). foldl (\<lambda>a (dest, weight). nx_add_edge a src dest weight) a es) [] g"

fun nx_edges_from :: "'n set \<Rightarrow> ('n, 'w) nxgraph \<Rightarrow> ('n \<times> 'n \<times> 'w) list" where
  "nx_edges_from seen [] = []"
| "nx_edges_from seen ((n, nbrs) # a) =
     map (\<lambda>(v, w). (n, v, w)) (filter (\<lambda>(v, w). v \<notin> seen) nbrs) @ nx_edges_from (insert n seen) a"

text \<open>\<^verbatim>\<open>G.edges()\<close> (line 138) and \<^verbatim>\<open>nx.get_edge_attributes(G, "weight")\<close> (lines 78, 135).\<close>

definition nx_edges :: "('n, 'w) nxgraph \<Rightarrow> ('n \<times> 'n) list" where
  "nx_edges a = map (\<lambda>(u, v, w). (u, v)) (nx_edges_from {} a)"

definition nx_edge_labels :: "('n, 'w) nxgraph \<Rightarrow> (('n \<times> 'n) \<times> 'w) list" where
  "nx_edge_labels a = map (\<lambda>(u, v, w). ((u, v), w)) (nx_edges_from {} a)"

lemmas drawing_eval [eval_simps] = nx_add_node_def nx_add_edge_def nx_graph_def nx_edges_def
  nx_edge_labels_def

subsection \<open>The edges of the drawing\<close>

text \<open>\<open>nx_nbr a u v\<close>: \<open>v\<close> is a neighbour of \<open>u\<close> in the networkx adjacency \<open>a\<close>.\<close>

definition nx_nbr :: "('n, 'w) nxgraph \<Rightarrow> 'n \<Rightarrow> 'n \<Rightarrow> bool" where
  "nx_nbr a u v \<longleftrightarrow> (\<exists>ns w. (u, ns) \<in> set a \<and> (v, w) \<in> set ns)"

lemma set_attr_cases: "(y, w') \<in> set (set_attr v w ns) \<Longrightarrow> y = v \<or> (\<exists>w''. (y, w'') \<in> set ns)"
  by (induction v w ns rule: set_attr.induct) (auto split: if_splits)

lemma set_attr_new: "\<exists>w'. (v, w') \<in> set (set_attr v w ns)"
  by (induction v w ns rule: set_attr.induct) auto

lemma set_attr_keep: "(y, w') \<in> set ns \<Longrightarrow> \<exists>w''. (y, w'') \<in> set (set_attr v w ns)"
  by (induction v w ns rule: set_attr.induct) auto

lemma keys_nx_set_nbr [simp]: "fst ` set (nx_set_nbr u v w a) = fst ` set a"
  by (induction u v w a rule: nx_set_nbr.induct) auto

lemma map_keys_nx_set_nbr: "map fst (nx_set_nbr u v w a) = map fst a"
  by (induction u v w a rule: nx_set_nbr.induct) auto

lemma keys_nx_add_node [simp]: "fst ` set (nx_add_node a u) = insert u (fst ` set a)"
  by (force simp: nx_add_node_def)

lemma distinct_nx_add_edge: "distinct (map fst a) \<Longrightarrow> distinct (map fst (nx_add_edge a u v w))"
  by (simp add: nx_add_edge_def map_keys_nx_set_nbr nx_add_node_def)

lemma nx_nbr_Nil: "\<not> nx_nbr [] x y"
  by (simp add: nx_nbr_def)

lemma nx_nbr_set_nbr:
  "nx_nbr (nx_set_nbr u v w a) x y \<longleftrightarrow> nx_nbr a x y \<or> (x = u \<and> y = v \<and> u \<in> fst ` set a)"
  unfolding nx_nbr_def
proof (induction u v w a rule: nx_set_nbr.induct)
  case (2 u v w k ns a)
  show ?case
  proof (cases "k = u")
    case True
    then show ?thesis
      using set_attr_new [of v w ns] set_attr_keep [of y _ ns v w] set_attr_cases [of y _ v w ns]
      by auto
  next
    case False
    with "2.IH" show ?thesis by auto
  qed
qed simp

lemma nx_nbr_add_node: "nx_nbr (nx_add_node a u) x y \<longleftrightarrow> nx_nbr a x y"
  by (auto simp: nx_nbr_def nx_add_node_def)

lemma nx_nbr_add_edge:
  "nx_nbr (nx_add_edge a u v w) x y \<longleftrightarrow> nx_nbr a x y \<or> (x = u \<and> y = v) \<or> (x = v \<and> y = u)"
  by (auto simp: nx_add_edge_def nx_nbr_set_nbr nx_nbr_add_node)

text \<open>After the adjacency entries of \<open>g\<close> are added, each joins its two ends both ways.\<close>

lemma nx_nbr_foldl_edges:
  "nx_nbr (foldl (\<lambda>a (dest, weight). nx_add_edge a src dest weight) a es) x y \<longleftrightarrow>
   nx_nbr a x y \<or> (x = src \<and> (\<exists>w. (y, w) \<in> set es)) \<or> (y = src \<and> (\<exists>w. (x, w) \<in> set es))"
proof (induction es arbitrary: a)
  case (Cons e es)
  obtain dest weight where e: "e = (dest, weight)" by (cases e)
  have "nx_nbr (foldl (\<lambda>a (dest, weight). nx_add_edge a src dest weight) a (e # es)) x y \<longleftrightarrow>
      nx_nbr (nx_add_edge a src dest weight) x y \<or> (x = src \<and> (\<exists>w. (y, w) \<in> set es)) \<or>
      (y = src \<and> (\<exists>w. (x, w) \<in> set es))"
    using Cons.IH [of "nx_add_edge a src dest weight"] by (simp add: e)
  also have "\<dots> \<longleftrightarrow> nx_nbr a x y \<or> (x = src \<and> (\<exists>w. (y, w) \<in> set (e # es))) \<or>
      (y = src \<and> (\<exists>w. (x, w) \<in> set (e # es)))"
    unfolding nx_nbr_add_edge e by auto
  finally show ?case .
qed simp

lemma nx_nbr_graph_foldl:
  "nx_nbr (foldl (\<lambda>a (src, es). foldl (\<lambda>a (dest, weight). nx_add_edge a src dest weight) a es) a g) x y \<longleftrightarrow>
   nx_nbr a x y \<or> (\<exists>es w. (x, es) \<in> set g \<and> (y, w) \<in> set es) \<or> (\<exists>es w. (y, es) \<in> set g \<and> (x, w) \<in> set es)"
proof (induction g arbitrary: a)
  case (Cons e g)
  obtain src es where "e = (src, es)" by (cases e)
  have "nx_nbr (foldl (\<lambda>a (src, es). foldl (\<lambda>a (dest, weight). nx_add_edge a src dest weight) a es) a (e # g)) x y
      \<longleftrightarrow> nx_nbr (foldl (\<lambda>a (dest, weight). nx_add_edge a src dest weight) a es) x y \<or>
        (\<exists>es w. (x, es) \<in> set g \<and> (y, w) \<in> set es) \<or> (\<exists>es w. (y, es) \<in> set g \<and> (x, w) \<in> set es)"
    using Cons.IH [of "foldl (\<lambda>a (dest, weight). nx_add_edge a src dest weight) a es"]
    by (simp add: \<open>e = (src, es)\<close>)
  also have "\<dots> \<longleftrightarrow> nx_nbr a x y \<or> (\<exists>es w. (x, es) \<in> set (e # g) \<and> (y, w) \<in> set es) \<or>
      (\<exists>es w. (y, es) \<in> set (e # g) \<and> (x, w) \<in> set es)"
    unfolding nx_nbr_foldl_edges \<open>e = (src, es)\<close> by auto
  finally show ?case .
qed simp

lemma nx_nbr_graph:
  "nx_nbr (nx_graph g) x y \<longleftrightarrow>
   (\<exists>es w. (x, es) \<in> set g \<and> (y, w) \<in> set es) \<or> (\<exists>es w. (y, es) \<in> set g \<and> (x, w) \<in> set es)"
  unfolding nx_graph_def nx_nbr_graph_foldl by (simp add: nx_nbr_Nil)

lemma distinct_nx_graph_foldl:
  "distinct (map fst a) \<Longrightarrow>
   distinct (map fst (foldl (\<lambda>a (src, es). foldl (\<lambda>a (dest, weight). nx_add_edge a src dest weight) a es) a g))"
proof (induction g arbitrary: a)
  case (Cons e g)
  obtain src es where e: "e = (src, es)" by (cases e)
  have "distinct (map fst (foldl (\<lambda>a (dest, weight). nx_add_edge a src dest weight) a es))"
    using Cons.prems by (induction es arbitrary: a) (auto simp: distinct_nx_add_edge)
  with Cons.IH e show ?case by simp
qed simp

lemma distinct_nx_graph: "distinct (map fst (nx_graph g))"
  unfolding nx_graph_def by (rule distinct_nx_graph_foldl) simp

text \<open>
  \<^verbatim>\<open>G.edges()\<close> lists every pair of neighbours once, in one of its two orientations:
  at the turn of whichever of the two nodes comes first.
\<close>

lemma nx_edges_from_cover:
  assumes "distinct (map fst a)" "nx_nbr a u v" "nx_nbr a v u" "u \<notin> S" "v \<notin> S"
  shows "(\<exists>w. (u, v, w) \<in> set (nx_edges_from S a)) \<or> (\<exists>w. (v, u, w) \<in> set (nx_edges_from S a))"
  using assms
proof (induction S a rule: nx_edges_from.induct)
  case (1 S)
  then show ?case by (simp add: nx_nbr_Nil)
next
  case (2 S n nbrs a)
  show ?case
  proof (cases "n = u")
    case True
    with "2.prems"(1,2,5) obtain w where "(v, w) \<in> set nbrs"
      by (auto simp: nx_nbr_def image_iff)
    with True "2.prems"(5) show ?thesis by force
  next
    case nu: False
    show ?thesis
    proof (cases "n = v")
      case True
      with "2.prems"(1,3,4) obtain w where "(u, w) \<in> set nbrs"
        by (auto simp: nx_nbr_def image_iff)
      with True "2.prems"(4) show ?thesis by force
    next
      case False
      with nu "2.prems" have "nx_nbr a u v" "nx_nbr a v u" "distinct (map fst a)"
        by (auto simp: nx_nbr_def)
      with "2.IH" "2.prems"(4,5) nu False show ?thesis by auto
    qed
  qed
qed

lemma nx_edges_cover:
  assumes "\<exists>es w. (u, es) \<in> set g \<and> (v, w) \<in> set es"
  shows "(u, v) \<in> set (nx_edges (nx_graph g)) \<or> (v, u) \<in> set (nx_edges (nx_graph g))"
proof -
  have "nx_nbr (nx_graph g) u v" "nx_nbr (nx_graph g) v u" using assms by (auto simp: nx_nbr_graph)
  from nx_edges_from_cover [OF distinct_nx_graph this, of "{}"]
  obtain w where "(u, v, w) \<in> set (nx_edges_from {} (nx_graph g)) \<or> (v, u, w) \<in> set (nx_edges_from {} (nx_graph g))"
    by blast
  then show ?thesis
  proof
    assume "(u, v, w) \<in> set (nx_edges_from {} (nx_graph g))"
    then have "(\<lambda>(u, v, w). (u, v)) (u, v, w) \<in> (\<lambda>(u, v, w). (u, v)) ` set (nx_edges_from {} (nx_graph g))"
      by (rule imageI)
    then show ?thesis by (simp add: nx_edges_def)
  next
    assume "(v, u, w) \<in> set (nx_edges_from {} (nx_graph g))"
    then have "(\<lambda>(u, v, w). (u, v)) (v, u, w) \<in> (\<lambda>(u, v, w). (u, v)) ` set (nx_edges_from {} (nx_graph g))"
      by (rule imageI)
    then show ?thesis by (simp add: nx_edges_def)
  qed
qed

subsection \<open>The labels of the drawing\<close>

text \<open>
  The adjacency entries in the order lines 129--132 visit them, and the weight of the last
  of them that joins two given nodes, in either direction: the weight networkx keeps.
\<close>

definition road_entries :: "('n, 'w) graph \<Rightarrow> ('n \<times> 'n \<times> 'w) list" where
  "road_entries g = concat (map (\<lambda>(src, es). map (\<lambda>(dest, w). (src, dest, w)) es) g)"

definition last_weight :: "('n \<times> 'n \<times> 'w) list \<Rightarrow> 'n \<Rightarrow> 'n \<Rightarrow> 'w option" where
  "last_weight es x y = foldl (\<lambda>r (s, d, w). if (x, y) = (s, d) \<or> (x, y) = (d, s) then Some w else r) None es"

definition nx_weight :: "('n, 'w) nxgraph \<Rightarrow> 'n \<Rightarrow> 'n \<Rightarrow> 'w option" where
  "nx_weight a u v = (case map_of a u of None \<Rightarrow> None | Some ns \<Rightarrow> map_of ns v)"

lemma map_of_set_attr: "map_of (set_attr v w ns) = (map_of ns)(v \<mapsto> w)"
  by (induction v w ns rule: set_attr.induct) (auto simp: fun_eq_iff)

lemma map_of_nx_set_nbr:
  "map_of (nx_set_nbr u v w a) =
   (case map_of a u of None \<Rightarrow> map_of a | Some ns \<Rightarrow> (map_of a)(u \<mapsto> set_attr v w ns))"
  by (induction u v w a rule: nx_set_nbr.induct) (auto simp: fun_eq_iff split: option.splits)

lemma nx_weight_set_nbr:
  "nx_weight (nx_set_nbr u v w a) x y =
   (if x = u \<and> u \<in> fst ` set a \<and> y = v then Some w else nx_weight a x y)"
proof (cases "map_of a u")
  case None
  then have "u \<notin> fst ` set a" by (simp add: map_of_eq_None_iff)
  with None show ?thesis by (simp add: nx_weight_def map_of_nx_set_nbr)
next
  case (Some ns)
  then have "u \<in> fst ` set a" by (metis map_of_eq_None_iff option.distinct(1))
  with Some show ?thesis by (auto simp: nx_weight_def map_of_nx_set_nbr map_of_set_attr)
qed

lemma nx_weight_add_node: "nx_weight (nx_add_node a u) x y = nx_weight a x y"
  by (auto simp: nx_weight_def nx_add_node_def map_add_def split: option.splits)

lemma if_merge_or: "Q \<Longrightarrow> (if P \<and> Q \<and> R then c else (if S then c else r)) = (if P \<and> R \<or> S then c else r)"
  by simp

lemma nx_weight_add_edge:
  "nx_weight (nx_add_edge a u v w) x y = (if (x, y) = (u, v) \<or> (x, y) = (v, u) then Some w else nx_weight a x y)"
proof -
  let ?b = "nx_add_node (nx_add_node a u) v"
  have ku: "u \<in> fst ` set ?b" and kv: "v \<in> fst ` set (nx_set_nbr u v w ?b)"
    by (simp_all only: keys_nx_set_nbr keys_nx_add_node) simp_all
  have inner: "nx_weight (nx_set_nbr u v w ?b) x y = (if x = u \<and> y = v then Some w else nx_weight a x y)"
    unfolding nx_weight_set_nbr nx_weight_add_node using ku by simp
  have outer: "nx_weight (nx_set_nbr v u w (nx_set_nbr u v w ?b)) x y =
      (if x = v \<and> v \<in> fst ` set (nx_set_nbr u v w ?b) \<and> y = u then Some w
       else nx_weight (nx_set_nbr u v w ?b) x y)"
    by (rule nx_weight_set_nbr)
  have conds: "(x = v \<and> y = u \<or> x = u \<and> y = v) \<longleftrightarrow> (x, y) = (u, v) \<or> (x, y) = (v, u)"
    by blast
  show ?thesis
    unfolding nx_add_edge_def outer inner if_merge_or [OF kv] conds ..
qed

lemma foldl_entries_of:
  "foldl (\<lambda>a (src, dest, w). nx_add_edge a src dest w) a (map (\<lambda>(dest, w). (src, dest, w)) es) =
   foldl (\<lambda>a (dest, weight). nx_add_edge a src dest weight) a es"
proof (induction es arbitrary: a)
  case (Cons e es)
  obtain dest w where "e = (dest, w)" by (cases e)
  with Cons show ?case by simp
qed simp

lemma nx_graph_entries_foldl:
  "foldl (\<lambda>a (src, es). foldl (\<lambda>a (dest, weight). nx_add_edge a src dest weight) a es) a g =
   foldl (\<lambda>a (src, dest, w). nx_add_edge a src dest w) a (road_entries g)"
proof (induction g arbitrary: a)
  case (Cons e g)
  obtain src es where e: "e = (src, es)" by (cases e)
  have "road_entries (e # g) = map (\<lambda>(dest, w). (src, dest, w)) es @ road_entries g"
    by (simp add: road_entries_def e)
  with Cons.IH e show ?case by (simp only: foldl_append foldl_entries_of foldl_Cons prod.case)
qed (simp add: road_entries_def)

lemma nx_graph_entries:
  "nx_graph g = foldl (\<lambda>a (src, dest, w). nx_add_edge a src dest w) [] (road_entries g)"
  by (simp add: nx_graph_def nx_graph_entries_foldl)

lemma nx_weight_foldl:
  "nx_weight (foldl (\<lambda>a (src, dest, w). nx_add_edge a src dest w) a es) x y =
   foldl (\<lambda>r (s, d, w). if (x, y) = (s, d) \<or> (x, y) = (d, s) then Some w else r) (nx_weight a x y) es"
proof (induction es arbitrary: a)
  case (Cons e es)
  obtain s d w where "e = (s, d, w)" by (cases e)
  then show ?case by (simp only: foldl_Cons prod.case Cons.IH nx_weight_add_edge)
qed simp

lemma nx_weight_graph: "nx_weight (nx_graph g) x y = last_weight (road_entries g) x y"
proof -
  have nil: "nx_weight [] x y = None" by (simp add: nx_weight_def)
  show ?thesis unfolding nx_graph_entries nx_weight_foldl last_weight_def nil ..
qed

text \<open>networkx keeps one entry per neighbour: the neighbour lists have distinct names.\<close>

definition nx_wf :: "('n, 'w) nxgraph \<Rightarrow> bool" where
  "nx_wf a \<longleftrightarrow> distinct (map fst a) \<and> (\<forall>(u, ns) \<in> set a. distinct (map fst ns))"

lemma distinct_set_attr: "distinct (map fst ns) \<Longrightarrow> distinct (map fst (set_attr v w ns))"
proof (induction v w ns rule: set_attr.induct)
  case (2 v w x w' xs)
  have "fst ` set (set_attr v w xs) = insert v (fst ` set xs)"
  proof (induction v w xs rule: set_attr.induct)
    case (2 v w x w' xs)
    then show ?case by auto
  qed simp
  with 2 show ?case by auto
qed simp

lemma nx_wf_set_nbr: "nx_wf a \<Longrightarrow> nx_wf (nx_set_nbr u v w a)"
  unfolding nx_wf_def
  by (induction u v w a rule: nx_set_nbr.induct) (auto simp: distinct_set_attr map_keys_nx_set_nbr)

lemma nx_wf_add_edge: "nx_wf a \<Longrightarrow> nx_wf (nx_add_edge a u v w)"
  unfolding nx_add_edge_def
  by (intro nx_wf_set_nbr) (auto simp: nx_wf_def nx_add_node_def)

lemma nx_wf_graph: "nx_wf (nx_graph g)"
proof -
  have "nx_wf (foldl (\<lambda>a (src, dest, w). nx_add_edge a src dest w) a es)" if "nx_wf a" for a es
    using that
  proof (induction es arbitrary: a)
    case (Cons e es)
    obtain s d w where "e = (s, d, w)" by (cases e)
    with Cons show ?case by (simp add: nx_wf_add_edge)
  qed simp
  moreover have "nx_wf []" by (simp add: nx_wf_def)
  ultimately show ?thesis unfolding nx_graph_entries by blast
qed

lemma nx_edges_from_entry:
  "(n, v, w) \<in> set (nx_edges_from S a) \<Longrightarrow> \<exists>ns. (n, ns) \<in> set a \<and> (v, w) \<in> set ns"
  by (induction S a rule: nx_edges_from.induct) auto

lemma nx_edges_from_weight:
  assumes "nx_wf a" "(n, v, w) \<in> set (nx_edges_from S a)"
  shows "nx_weight a n v = Some w"
proof -
  from nx_edges_from_entry [OF assms(2)] obtain ns where "(n, ns) \<in> set a" "(v, w) \<in> set ns" by blast
  moreover from this assms(1) have "map_of a n = Some ns" "distinct (map fst ns)"
    by (auto simp: nx_wf_def)
  ultimately show ?thesis by (simp add: nx_weight_def)
qed

subsection \<open>The drawn labels\<close>

text \<open>
  C19. Every label networkx draws on an edge (lines 129--135) is the weight of the last
  adjacency entry, in the order the drawing loop visits them, that joins the edge's two
  locations in either direction: parallel roads and the two directions of a road collapse
  into one edge carrying the last weight written.
\<close>

theorem edge_label_last_weight:
  assumes "((u, v), w) \<in> set (nx_edge_labels (nx_graph g))"
  shows "last_weight (road_entries g) u v = Some w"
proof -
  from assms have "(u, v, w) \<in> set (nx_edges_from {} (nx_graph g))"
    by (auto simp: nx_edge_labels_def)
  from nx_edges_from_weight [OF nx_wf_graph this] show ?thesis by (simp only: nx_weight_graph)
qed

theorem edge_label_last_weight_witness:
  "((''A'', ''B''), 5::nat) \<in> set (nx_edge_labels (nx_graph [(''A'', [(''B'', 2), (''B'', 5)]), (''B'', [(''A'', 2), (''A'', 5)])])) \<and>
   last_weight (road_entries [(''A'', [(''B'', 2), (''B'', 5)]), (''B'', [(''A'', 2), (''A'', 5)])]) ''A'' ''B'' = Some (5::nat)"
proof -
  have lab: "((''A'', ''B''), 5::nat) \<in> set (nx_edge_labels (nx_graph [(''A'', [(''B'', 2), (''B'', 5)]), (''B'', [(''A'', 2), (''A'', 5)])]))"
    by (simp add: eval_simps)
  with edge_label_last_weight [OF lab] show ?thesis by simp
qed


end
