(* ===== verification/App.thy ===== *)
theory App
  imports Dijkstra GraphStore PyFloat Highlight Drawing
begin

text \<open>
  The application script \<^verbatim>\<open>src/ShortestRoute.py\<close>. Streamlit reruns the whole script
  on every interaction; between reruns only the session state survives
  (lines 17--26): the dictionary \<^verbatim>\<open>graph\<close>, the set \<^verbatim>\<open>locations_set\<close> and the flag
  \<^verbatim>\<open>visualize\<close>, here the record \<open>app_state\<close>. One rerun handles one event: the
  "Submit Road" form (lines 36--55, \<open>submit_road\<close>), the "Visualize Current Network"
  button (lines 65--66) or the "Compute Shortest Path" button (lines 101--147,
  \<open>compute_path\<close>), whose two select boxes offer the sorted registered locations
  (lines 88--99). \<open>app_step\<close> relates a state, an event, the next state and what the
  rerun reports; \<open>reachable\<close> are the states of a session. Distances are rationals
  parsed by \<open>PyFloat.parse_float\<close>; a distance text that \<^verbatim>\<open>float\<close> reads as
  infinity or NaN is outside this model (\<open>NonFiniteDistance\<close>, state unchanged). The
  record and the result types take the weight type as a parameter: \<open>AppFloat\<close> runs the
  same script over Python floats and stores such roads.
\<close>

record 'w app_state =
  graph :: "(string, 'w) graph"
  locations_set :: "string set"
  visualize :: bool

text \<open>Lines 18--23: the state of a fresh session.\<close>

definition init_state :: "'w app_state" where
  "init_state = \<lparr>graph = [], locations_set = {}, visualize = False\<rparr>"

datatype py_error = KeyError

datatype 'w road_msg =
    AllFieldsRequired
  | DistanceNotNumber
  | RoadAdded string string 'w
  | NonFiniteDistance pyfloat
  | Uncaught py_error

text \<open>
  Lines 36--55. The emptiness test comes first; \<^verbatim>\<open>float(dist_text)\<close> raising ValueError is
  caught; otherwise both locations are registered before the dictionary is changed.
\<close>

definition submit_road :: "rat app_state \<Rightarrow> string \<Rightarrow> string \<Rightarrow> string \<Rightarrow> rat road_msg \<times> rat app_state" where
  "submit_road st src dst dist_text =
     (if src = [] \<or> dst = [] \<or> dist_text = [] then (AllFieldsRequired, st)
      else
        (case parse_float dist_text of
          None \<Rightarrow> (DistanceNotNumber, st)
        | Some (PyNum d) \<Rightarrow>
            (let st' = st\<lparr>locations_set := insert dst (insert src (locations_set st))\<rparr> in
             case add_road_edges (graph st) src dst d of
               Inl g \<Rightarrow> (Uncaught KeyError, st'\<lparr>graph := g\<rparr>)
             | Inr g \<Rightarrow> (RoadAdded src dst d, st'\<lparr>graph := g\<rparr>))
        | Some x \<Rightarrow> (NonFiniteDistance x, st)))"

datatype 'w path_result =
    NoPathExists string string
  | ShortestPath 'w "string list" "edge_color list"

text \<open>
  Lines 120--147: run the search; on the infinity sentinel report "No path exists",
  otherwise the distance, the path and the colour of every edge of the redrawn network,
  in the order of \<^verbatim>\<open>G.edges()\<close>.
\<close>

definition compute_path :: "rat app_state \<Rightarrow> string \<Rightarrow> string \<Rightarrow> rat path_result" where
  "compute_path st source dest =
     (case dijkstra (graph st) source dest of
       (Infinity, _) \<Rightarrow> NoPathExists source dest
     | (Fin distance, path) \<Rightarrow>
         ShortestPath distance path (edge_colors path (nx_edges (nx_graph (graph st)))))"

datatype ui_event =
    SubmitRoad string string string
  | ClickVisualize
  | ComputeShortestPath string string
  | Rerun

datatype 'w app_output =
    RoadOutput "'w road_msg"
  | RoadListing "(string, 'w) graph"
  | NetworkDrawing "((string \<times> string) \<times> 'w) list"
  | PathOutput "'w path_result"

text \<open>
  What every rerun shows after its event is handled: the road listing when the graph is
  not empty (lines 58--61), and the drawing with its weight labels when the flag is set
  and the graph is not empty (lines 68--80).
\<close>

definition shown :: "'w app_state \<Rightarrow> 'w app_output list" where
  "shown st =
     (if graph st = [] then [] else
        RoadListing (graph st) #
        (if visualize st then [NetworkDrawing (nx_edge_labels (nx_graph (graph st)))] else []))"

text \<open>
  One rerun of the script for one event, in the order of the script: the form, the
  listing, the visualize button and drawing, then the compute button. The compute button
  exists only when some location is registered (line 84) and the select boxes offer only
  registered locations, sorted (lines 88--99).
\<close>

inductive app_step :: "rat app_state \<Rightarrow> ui_event \<Rightarrow> rat app_state \<Rightarrow> rat app_output list \<Rightarrow> bool" where
  submit: "submit_road st src dst dist_text = (msg, st') \<Longrightarrow>
     app_step st (SubmitRoad src dst dist_text) st' (RoadOutput msg # shown st')"
| visualize: "app_step st ClickVisualize (st\<lparr>visualize := True\<rparr>) (shown (st\<lparr>visualize := True\<rparr>))"
| compute: "locations_set st \<noteq> {} \<Longrightarrow>
     source \<in> set (sorted_list_of_set (locations_set st)) \<Longrightarrow>
     dest \<in> set (sorted_list_of_set (locations_set st)) \<Longrightarrow>
     app_step st (ComputeShortestPath source dest) st (shown st @ [PathOutput (compute_path st source dest)])"
| rerun: "app_step st Rerun st (shown st)"

inductive reachable :: "rat app_state \<Rightarrow> bool" where
  init: "reachable init_state"
| step: "reachable st \<Longrightarrow> app_step st ev st' out \<Longrightarrow> reachable st'"

inductive_cases submit_stepE: "app_step st (SubmitRoad src dst dist_text) st' out"

text \<open>
  The invariant of a session: the dictionary's keys are distinct and are exactly the
  registered locations, and the store is symmetric.
\<close>

definition app_inv :: "'w app_state \<Rightarrow> bool" where
  "app_inv st \<longleftrightarrow>
     distinct (map fst (graph st)) \<and> keys (graph st) = locations_set st \<and> symmetric (graph st)"

lemmas app_eval [eval_simps] = submit_road_def compute_path_def init_state_def edge_colors_def edge_color_def
  shown_def

subsection \<open>The road handler\<close>

lemma submit_road_cases:
  assumes eq: "submit_road st src dst dist_text = (msg, st')"
  shows
    "(msg = AllFieldsRequired \<and> st' = st \<and> (src = [] \<or> dst = [] \<or> dist_text = [])) \<or>
     (msg = DistanceNotNumber \<and> st' = st \<and> src \<noteq> [] \<and> dst \<noteq> [] \<and> dist_text \<noteq> [] \<and>
        parse_float dist_text = None) \<or>
     (\<exists>x. msg = NonFiniteDistance x \<and> st' = st) \<or>
     (\<exists>d g. msg = RoadAdded src dst d \<and> src \<noteq> [] \<and> dst \<noteq> [] \<and> dist_text \<noteq> [] \<and>
        parse_float dist_text = Some (PyNum d) \<and> add_road_edges (graph st) src dst d = Inr g \<and>
        st' = st\<lparr>locations_set := insert dst (insert src (locations_set st)), graph := g\<rparr>)"
proof (cases "src = [] \<or> dst = [] \<or> dist_text = []")
  case True
  with eq show ?thesis by (simp add: submit_road_def)
next
  case False
  show ?thesis
  proof (cases "parse_float dist_text")
    case None
    with False eq show ?thesis by (simp add: submit_road_def)
  next
    case (Some x)
    show ?thesis
    proof (cases x)
      case (PyNum d)
      obtain g where g: "add_road_edges (graph st) src dst d = Inr g"
        using add_road_edges_Inr by metis
      with False Some PyNum eq show ?thesis by (auto simp: submit_road_def Let_def)
    next
      case (PyInf b)
      with False Some eq show ?thesis by (auto simp: submit_road_def)
    next
      case PyNaN
      with False Some eq show ?thesis by (auto simp: submit_road_def)
    qed
  qed
qed

lemma app_inv_init: "app_inv init_state"
  by (simp add: app_inv_def init_state_def symmetric_Nil)

lemma app_inv_add_road:
  "app_inv st \<Longrightarrow> add_road_edges (graph st) src dst d = Inr g \<Longrightarrow>
   app_inv (st\<lparr>locations_set := insert dst (insert src (locations_set st)), graph := g\<rparr>)"
  by (auto simp: app_inv_def keys_add_road intro: distinct_add_road symmetric_add_road)

lemma app_inv_submit:
  assumes inv: "app_inv st" and eq: "submit_road st src dst dist_text = (msg, st')"
  shows "app_inv st'"
proof -
  consider "st' = st"
    | d g where "add_road_edges (graph st) src dst d = Inr g"
        "st' = st\<lparr>locations_set := insert dst (insert src (locations_set st)), graph := g\<rparr>"
    using submit_road_cases [OF eq] by blast
  then show ?thesis
  proof cases
    case 1
    with inv show ?thesis by simp
  next
    case (2 d g)
    with inv show ?thesis by (simp add: app_inv_add_road)
  qed
qed

lemma app_inv_step: "app_step st ev st' out \<Longrightarrow> app_inv st \<Longrightarrow> app_inv st'"
proof (induction rule: app_step.induct)
  case (submit st src dst dist_text msg st')
  then show ?case by (blast intro: app_inv_submit)
next
  case (visualize st)
  then show ?case by (simp add: app_inv_def)
qed simp_all

lemma reachable_app_inv: "reachable st \<Longrightarrow> app_inv st"
proof (induction rule: reachable.induct)
  case init
  show ?case by (rule app_inv_init)
next
  case (step st ev st' out)
  then show ?case by (blast intro: app_inv_step)
qed

lemma reachable_submit:
  "reachable st \<Longrightarrow> reachable (snd (submit_road st src dst dist_text))"
proof -
  assume r: "reachable st"
  have "app_step st (SubmitRoad src dst dist_text) (snd (submit_road st src dst dist_text))
          (RoadOutput (fst (submit_road st src dst dist_text)) # shown (snd (submit_road st src dst dist_text)))"
    by (rule app_step.submit) simp
  with r show ?thesis by (rule reachable.step)
qed

subsection \<open>Properties of the application\<close>

text \<open>
  C3. In every state of a session the dictionary has distinct keys, its keys are exactly
  the registered locations, and every road is stored symmetrically at both ends.
\<close>

theorem session_invariant:
  "reachable st \<Longrightarrow>
   distinct (map fst (graph st)) \<and> keys (graph st) = locations_set st \<and> symmetric (graph st)"
  using reachable_app_inv by (simp add: app_inv_def)

theorem session_invariant_witness:
  "keys (graph (snd (submit_road init_state ''A'' ''B'' ''1''))) = {''A'', ''B''} \<and>
   symmetric [(''A'', [(''B'', 1::rat)]), (''B'', [(''A'', 1)])]"
proof -
  have r: "reachable (snd (submit_road init_state ''A'' ''B'' ''1''))"
    by (rule reachable_submit [OF reachable.init])
  have st: "snd (submit_road init_state ''A'' ''B'' ''1'') =
      \<lparr>graph = [(''A'', [(''B'', 1)]), (''B'', [(''A'', 1)])], locations_set = {''B'', ''A''},
       visualize = False\<rparr>"
    by (simp add: eval_simps add_road_edges_def add_key_def)
  from session_invariant [OF r] show ?thesis by (simp add: st insert_commute)
qed

text \<open>
  C14. Invalid input changes nothing: if a field is empty the handler reports that all
  fields are required, and if the distance is not a number for \<^verbatim>\<open>float\<close> it reports so;
  in both cases the state is returned unchanged.
\<close>

theorem submit_road_invalid:
  "(src = [] \<or> dst = [] \<or> dist_text = [] \<longrightarrow>
      submit_road st src dst dist_text = (AllFieldsRequired, st)) \<and>
   (src \<noteq> [] \<and> dst \<noteq> [] \<and> dist_text \<noteq> [] \<and> parse_float dist_text = None \<longrightarrow>
      submit_road st src dst dist_text = (DistanceNotNumber, st))"
  by (simp add: submit_road_def)

theorem submit_road_invalid_witness:
  "submit_road init_state ''A'' ''B'' ''abc'' = (DistanceNotNumber, init_state) \<and>
   submit_road init_state ''A'' [] ''3'' = (AllFieldsRequired, init_state)"
proof -
  have "parse_float ''abc'' = None" by (simp add: eval_simps)
  with submit_road_invalid [of "''A''" "''B''" "''abc''" init_state]
    submit_road_invalid [of "''A''" "[]" "''3''" init_state]
  show ?thesis by simp
qed

end
