(* ===== verification/LoopBound.thy ===== *)
theory LoopBound
  imports Dijkstra
begin

text \<open>
  Iterations of the search loop (\<^verbatim>\<open>src/ShortestRoute.py\<close>, lines 107--118). The
  function \<open>dijkstra_run\<close> is the loop of \<open>dijkstra_loop\<close> with a counter of the
  passes through the \<^verbatim>\<open>while\<close> body: it returns the loop's result and the number of
  heap pops. The lemmas show that the result is the loop's and that the loop stops
  after at most one pop per heap entry it starts with plus one per adjacency entry of
  a node it has not visited: a search from the start runs at most
  \<open>1 + \<Sum>\<close>(adjacency sizes) times.
\<close>

function dijkstra_run ::
  "('n::linorder, 'w::linordered_ab_group_add) graph \<Rightarrow> 'n \<Rightarrow> ('n, 'w) entry list \<Rightarrow> 'n set
   \<Rightarrow> ('w dist \<times> 'n list) \<times> nat"
where
  "dijkstra_run g target heap visited =
     (if heap = [] then ((Infinity, []), 0)
      else case heappop heap of ((d, node, path), heap') \<Rightarrow>
        if node \<in> visited then apsnd Suc (dijkstra_run g target heap' visited)
        else (let visited' = insert node visited; path' = path @ [node] in
              if node = target then ((Fin d, path'), 1)
              else apsnd Suc (dijkstra_run g target (push_neighbors visited' d path' (adj g node) heap') visited')))"
  by pat_completeness auto
termination
  by (relation "measure (\<lambda>(g, e, heap, visited). loop_measure g heap visited)")
    (auto intro: loop_measure_skip loop_measure_push)

declare dijkstra_run.simps [simp del]

definition adj_entries :: "('n, 'w) graph \<Rightarrow> 'n set \<Rightarrow> nat" where
  "adj_entries g V = (\<Sum>u \<in> keys g - V. length (adj g u))"

lemma adj_entries_visit:
  "n \<notin> V \<Longrightarrow> length (adj g n) + adj_entries g (insert n V) = adj_entries g V"
proof (cases "n \<in> keys g")
  case True
  then show "n \<notin> V \<Longrightarrow> ?thesis" by (simp add: adj_entries_def sum_insert_diff)
next
  case False
  then have "keys g - insert n V = keys g - V" by auto
  with False show "n \<notin> V \<Longrightarrow> ?thesis" by (simp add: adj_entries_def adj_not_key)
qed

lemma dijkstra_run_loop:
  "fst (dijkstra_run g t H V) = dijkstra_loop g t H V \<and>
   snd (dijkstra_run g t H V) \<le> length H + adj_entries g V"
proof (induction g t H V rule: dijkstra_run.induct)
  case (1 g t H V)
  show ?case
  proof (cases "H = []")
    case True
    then show ?thesis by (simp add: dijkstra_run.simps loop_empty)
  next
    case False
    obtain d n p H' where pop: "heappop H = ((d, n, p), H')"
      by (metis prod.exhaust)
    have len: "Suc (length H') = length H" by (rule heappop_length [OF False pop])
    consider (skipped) "n \<in> V" | (target) "n \<notin> V" "n = t" | (pushed) "n \<notin> V" "n \<noteq> t"
      by blast
    then show ?thesis
    proof cases
      case skipped
      have run: "dijkstra_run g t H V = apsnd Suc (dijkstra_run g t H' V)"
        using False pop skipped by (simp add: dijkstra_run.simps [of g t H V])
      from "1.IH"(1)[OF False pop [symmetric] refl refl skipped] run len show ?thesis
        by (simp add: loop_skip [OF False pop skipped])
    next
      case target
      have "dijkstra_run g t H V = ((Fin d, p @ [n]), 1)"
        using False pop target by (simp add: dijkstra_run.simps [of g t H V])
      with False pop target len show ?thesis by (simp add: loop_found)
    next
      case pushed
      let ?H2 = "push_neighbors (insert n V) d (p @ [n]) (adj g n) H'"
      have run: "dijkstra_run g t H V = apsnd Suc (dijkstra_run g t ?H2 (insert n V))"
        using False pop pushed by (simp add: dijkstra_run.simps [of g t H V] Let_def)
      have ih: "fst (dijkstra_run g t ?H2 (insert n V)) = dijkstra_loop g t ?H2 (insert n V) \<and>
          snd (dijkstra_run g t ?H2 (insert n V)) \<le> length ?H2 + adj_entries g (insert n V)"
        using "1.IH"(2)[OF False pop [symmetric] refl refl pushed(1) refl refl] pushed(2) by blast
      have "length ?H2 \<le> length H' + length (adj g n)"
        by (rule length_push_neighbors)
      with ih run len adj_entries_visit [OF pushed(1), of g] show ?thesis
        by (simp add: loop_visit [OF False pop pushed])
    qed
  qed
qed

subsection \<open>Bound on the loop\<close>

text \<open>
  C15. The search stops, returning the result of \<open>dijkstra\<close>, after at most one pass of
  the \<^verbatim>\<open>while\<close> loop per adjacency entry of the graph plus one: every entry is
  pushed at most once, when its node is visited, and every pass pops one entry.
\<close>

theorem dijkstra_iterations_bound:
  "fst (dijkstra_run g t [(0, s, [])] {}) = dijkstra g s t \<and>
   snd (dijkstra_run g t [(0, s, [])] {}) \<le> 1 + (\<Sum>u \<in> keys g. length (adj g u))"
  using dijkstra_run_loop [of g t "[(0, s, [])]" "{}"] by (simp add: dijkstra_def adj_entries_def)

lemma triangle_iterations:
  "dijkstra_run [(''A'', [(''B'', 1), (''C'', 10)]), (''B'', [(''A'', 1), (''C'', 2)]),
                 (''C'', [(''B'', 2), (''A'', 10)])] ''C'' [(0, ''A'', [])] {}
   = ((Fin (3::int), [''A'', ''B'', ''C'']), 3)"
  by (simp add: dijkstra_run.simps eval_simps)

end
