(* ===== verification/HeapArray.thy ===== *)
theory HeapArray
  imports HeapQ
begin

text \<open>
  The array heap of Python's \<^verbatim>\<open>heapq\<close> module (\<^verbatim>\<open>Lib/heapq.py\<close>), which the search of
  \<^verbatim>\<open>src/ShortestRoute.py\<close> calls at lines 105, 108 and 117. The module is a library, so
  the definitions follow its published source: \<open>siftdown\<close> is \<^verbatim>\<open>_siftdown\<close>, which moves
  the item at \<open>pos\<close> towards the root, writing parents into the hole; \<open>siftup\<close> is
  \<^verbatim>\<open>_siftup\<close>, which moves the hole at \<open>pos\<close> down to a leaf along the smaller children
  and then calls \<^verbatim>\<open>_siftdown\<close> for the displaced item; \<open>heappush_arr\<close> and
  \<open>heappop_arr\<close> are \<^verbatim>\<open>heappush\<close> and \<^verbatim>\<open>heappop\<close>, the IndexError of popping an empty
  list being \<open>None\<close>. The list is a heap (\<open>heap_inv\<close>) when no element is smaller than
  its parent at \<open>(i - 1) div 2\<close>. The lemmas show that both operations keep the heap
  property and implement the multiset contract of \<open>HeapQ\<close>: a push adds the item, a pop
  returns a least item and removes one copy of it.
\<close>

definition par :: "nat \<Rightarrow> nat" where
  "par i = (i - 1) div 2"

text \<open>\<^verbatim>\<open>_siftdown(heap, startpos, pos)\<close>: the loop, with \<open>newitem\<close> held outside the list.\<close>

function siftdown_loop :: "'a::linorder list \<Rightarrow> nat \<Rightarrow> nat \<Rightarrow> 'a \<Rightarrow> 'a list" where
  "siftdown_loop heap startpos pos newitem =
     (if startpos < pos then
        (let parentpos = (pos - 1) div 2; parent = heap ! parentpos in
         if newitem < parent then siftdown_loop (heap[pos := parent]) startpos parentpos newitem
         else heap[pos := newitem])
      else heap[pos := newitem])"
  by pat_completeness auto
termination
  by (relation "measure (\<lambda>(heap, startpos, pos, newitem). pos)") auto

definition siftdown :: "'a::linorder list \<Rightarrow> nat \<Rightarrow> nat \<Rightarrow> 'a list" where
  "siftdown heap startpos pos = siftdown_loop heap startpos pos (heap ! pos)"

text \<open>\<^verbatim>\<open>_siftup(heap, pos)\<close>: the loop moves the hole down; it returns the list and the leaf reached.\<close>

function siftup_loop :: "'a::linorder list \<Rightarrow> nat \<Rightarrow> nat \<Rightarrow> 'a list \<times> nat" where
  "siftup_loop heap endpos pos =
     (let childpos = 2 * pos + 1 in
      if childpos < endpos then
        (let rightpos = childpos + 1;
             childpos' = (if rightpos < endpos \<and> \<not> heap ! childpos < heap ! rightpos then rightpos else childpos)
         in siftup_loop (heap[pos := heap ! childpos']) endpos childpos')
      else (heap, pos))"
  by pat_completeness auto
termination
  by (relation "measure (\<lambda>(heap, endpos, pos). endpos - pos)") (auto simp: Let_def)

definition siftup :: "'a::linorder list \<Rightarrow> nat \<Rightarrow> 'a list" where
  "siftup heap pos =
     (let startpos = pos; newitem = heap ! pos in
      case siftup_loop heap (length heap) pos of
        (heap', pos') \<Rightarrow> siftdown (heap'[pos' := newitem]) startpos pos')"

definition heappush_arr :: "'a::linorder list \<Rightarrow> 'a \<Rightarrow> 'a list" where
  "heappush_arr heap item = siftdown (heap @ [item]) 0 (length heap)"

definition heappop_arr :: "'a::linorder list \<Rightarrow> ('a \<times> 'a list) option" where
  "heappop_arr heap =
     (if heap = [] then None
      else
        (let lastelt = last heap; heap' = butlast heap in
         if heap' \<noteq> [] then
           (let returnitem = heap' ! 0 in Some (returnitem, siftup (heap'[0 := lastelt]) 0))
         else Some (lastelt, heap')))"

definition heap_inv :: "'a::linorder list \<Rightarrow> bool" where
  "heap_inv h \<longleftrightarrow> (\<forall>i < length h. 0 < i \<longrightarrow> h ! par i \<le> h ! i)"

declare siftdown_loop.simps [simp del] siftup_loop.simps [simp del]

lemmas heap_arr_eval [eval_simps] = siftdown_loop.simps siftdown_def siftup_loop.simps siftup_def
  heappush_arr_def heappop_arr_def

subsection \<open>Positions in the tree\<close>

lemma par_less: "0 < i \<Longrightarrow> par i < i"
  by (simp add: par_def)

lemma par_child: "0 < i \<Longrightarrow> i = 2 * par i + 1 \<or> i = 2 * par i + 2"
  by (simp add: par_def) arith

lemma par_eq_iff: "0 < i \<Longrightarrow> par i = k \<longleftrightarrow> i = 2 * k + 1 \<or> i = 2 * k + 2"
  by (auto simp: par_def)

lemma heap_inv_root:
  assumes "heap_inv h" "i < length h"
  shows "h ! 0 \<le> h ! i"
  using assms(2)
proof (induction i rule: less_induct)
  case (less i)
  show ?case
  proof (cases "i = 0")
    case False
    then have "par i < i" by (simp add: par_less)
    with less have "h ! 0 \<le> h ! par i" by simp
    also from assms(1) less.prems False have "h ! par i \<le> h ! i" by (simp add: heap_inv_def)
    finally show ?thesis .
  qed simp
qed

lemma heap_inv_Min: "heap_inv h \<Longrightarrow> h \<noteq> [] \<Longrightarrow> h ! 0 = Min (set h)"
  by (rule Min_eqI [symmetric]) (auto simp: in_set_conv_nth heap_inv_root)

lemma mset_update_swap:
  "i < length h \<Longrightarrow> j < length h \<Longrightarrow> mset (h[i := h ! j, j := v]) = mset (h[i := v])"
  by (cases "i = j") (auto simp: mset_update nth_list_update)

subsection \<open>Sifting towards the root\<close>

text \<open>
  The list with the hole at \<open>k\<close> filled: every link is ordered except the one into \<open>k\<close>,
  and the parent of \<open>k\<close> is no larger than the children of \<open>k\<close>.
\<close>

definition hole_up :: "'a::linorder list \<Rightarrow> nat \<Rightarrow> bool" where
  "hole_up a k \<longleftrightarrow>
     (\<forall>i < length a. 0 < i \<longrightarrow> i \<noteq> k \<longrightarrow> a ! par i \<le> a ! i) \<and>
     (0 < k \<longrightarrow> (\<forall>i < length a. 0 < i \<longrightarrow> par i = k \<longrightarrow> a ! par k \<le> a ! i))"

lemma hole_up_step:
  assumes pos: "pos < length h" "0 < pos" and hole: "hole_up (h[pos := x]) pos"
    and less: "x < h ! par pos"
  shows "hole_up (h[pos := h ! par pos, par pos := x]) (par pos)"
proof -
  let ?a = "h[pos := x]" and ?b = "h[pos := h ! par pos, par pos := x]" and ?p = "par pos"
  have pp: "?p < pos" by (rule par_less [OF pos(2)])
  have a_le: "?a ! par i \<le> ?a ! i" if "i < length h" "0 < i" "i \<noteq> pos" for i
    using hole that by (simp add: hole_up_def)
  have a_gp: "?a ! par pos \<le> ?a ! i" if "i < length h" "0 < i" "par i = pos" for i
    using hole that pos by (simp add: hole_up_def)
  have part1: "?b ! par i \<le> ?b ! i" if i: "i < length h" "0 < i" "i \<noteq> ?p" for i
  proof (cases "i = pos")
    case True
    with pp pos less show ?thesis by (simp add: nth_list_update)
  next
    case False
    have "par i < i" by (rule par_less [OF i(2)])
    consider "par i = ?p" | "par i = pos" | "par i \<noteq> ?p" "par i \<noteq> pos" by blast
    then show ?thesis
    proof cases
      case 1
      with a_le [OF i(1,2) False] less pp pos False i show ?thesis
        by (simp add: nth_list_update)
    next
      case 2
      with a_gp [OF i(1,2)] pp pos False i show ?thesis by (simp add: nth_list_update)
    next
      case 3
      with a_le [OF i(1,2) False] pos False i show ?thesis by (simp add: nth_list_update)
    qed
  qed
  have part2: "?b ! par ?p \<le> ?b ! i" if p0: "0 < ?p" and i: "i < length h" "0 < i" "par i = ?p" for i
  proof -
    have gp: "par ?p < ?p" by (rule par_less [OF p0])
    have "?a ! par ?p \<le> ?a ! ?p" using a_le [of ?p] p0 pp pos by simp
    moreover have "?a ! ?p \<le> ?a ! i" if "i \<noteq> pos" using a_le [OF i(1,2) that] i(3) by simp
    ultimately show ?thesis
      using gp pp pos i by (cases "i = pos") (auto simp: nth_list_update)
  qed
  show ?thesis
    unfolding hole_up_def using part1 part2 by simp
qed

lemma hole_up_done:
  assumes "pos < length h" "hole_up (h[pos := x]) pos" "0 < pos \<longrightarrow> \<not> x < h ! par pos"
  shows "heap_inv (h[pos := x])"
  unfolding heap_inv_def
proof (intro allI impI)
  fix i assume i: "i < length (h[pos := x])" "0 < i"
  show "h[pos := x] ! par i \<le> h[pos := x] ! i"
  proof (cases "i = pos")
    case True
    with i assms(3) par_less [of pos] show ?thesis by (simp add: nth_list_update)
  next
    case False
    with assms(2) i show ?thesis by (simp add: hole_up_def)
  qed
qed

lemma siftdown_loop_heap:
  "pos < length h \<Longrightarrow> startpos = 0 \<Longrightarrow> hole_up (h[pos := x]) pos \<Longrightarrow>
   heap_inv (siftdown_loop h startpos pos x)"
proof (induction h startpos pos x rule: siftdown_loop.induct)
  case (1 h startpos pos x)
  show ?case
  proof (cases "0 < pos \<and> x < h ! par pos")
    case True
    have "hole_up ((h[pos := h ! par pos])[par pos := x]) (par pos)"
      using hole_up_step [OF "1.prems"(1) _ "1.prems"(3)] True by simp
    moreover have "siftdown_loop h startpos pos x = siftdown_loop (h[pos := h ! par pos]) startpos (par pos) x"
      using True by (simp add: "1.prems"(2) siftdown_loop.simps [of h 0 pos] par_def Let_def)
    ultimately show ?thesis
      using "1.IH" [of "(pos - 1) div 2" "h ! ((pos - 1) div 2)"] True "1.prems"(1,2) par_less [of pos]
      by (simp add: par_def)
  next
    case False
    then have "siftdown_loop h startpos pos x = h[pos := x]"
      by (auto simp: "1.prems"(2) siftdown_loop.simps [of h 0 pos] par_def Let_def)
    moreover from False have "0 < pos \<longrightarrow> \<not> x < h ! par pos" by blast
    ultimately show ?thesis using hole_up_done [OF "1.prems"(1,3)] by simp
  qed
qed

lemma siftdown_loop_mset:
  "pos < length h \<Longrightarrow> mset (siftdown_loop h startpos pos x) = mset (h[pos := x]) \<and>
   length (siftdown_loop h startpos pos x) = length h"
proof (induction h startpos pos x rule: siftdown_loop.induct)
  case (1 h startpos pos x)
  then show ?case
    by (auto simp: siftdown_loop.simps [of h startpos pos] Let_def mset_update_swap)
qed

subsection \<open>Moving the hole to a leaf\<close>

text \<open>
  The list with a hole at \<open>k\<close>: every link not touching \<open>k\<close> is ordered, and the
  parent of \<open>k\<close> is no larger than the children of \<open>k\<close>.
\<close>

definition hole_down :: "'a::linorder list \<Rightarrow> nat \<Rightarrow> bool" where
  "hole_down a k \<longleftrightarrow>
     (\<forall>i < length a. 0 < i \<longrightarrow> i \<noteq> k \<longrightarrow> par i \<noteq> k \<longrightarrow> a ! par i \<le> a ! i) \<and>
     (0 < k \<longrightarrow> (\<forall>i < length a. 0 < i \<longrightarrow> par i = k \<longrightarrow> a ! par k \<le> a ! i))"

lemma par_children: "par (2 * k + 1) = k" "par (2 * k + 2) = k"
  by (simp_all add: par_def)

lemma hole_down_step:
  assumes c: "2 * pos + 1 < length h" and hole: "hole_down h pos"
    and c': "c' = (if 2 * pos + 1 + 1 < length h \<and> \<not> h ! (2 * pos + 1) < h ! (2 * pos + 1 + 1)
                   then 2 * pos + 1 + 1 else 2 * pos + 1)"
  shows "hole_down (h[pos := h ! c']) c'"
proof -
  let ?b = "h[pos := h ! c']"
  have c'_props: "par c' = pos" "c' < length h" "0 < c'" "pos < c'"
    using c c' by (auto simp: par_def)
  have least: "h ! c' \<le> h ! s" if "s < length h" "0 < s" "par s = pos" for s
    using that c' par_eq_iff [of s pos] by auto
  have h1: "h ! par i \<le> h ! i" if "i < length h" "0 < i" "i \<noteq> pos" "par i \<noteq> pos" for i
    using hole that by (simp add: hole_down_def)
  have h2: "h ! par pos \<le> h ! i" if "0 < pos" "i < length h" "0 < i" "par i = pos" for i
    using hole that by (simp add: hole_down_def)
  have part1: "?b ! par i \<le> ?b ! i"
    if i: "i < length h" "0 < i" "i \<noteq> c'" "par i \<noteq> c'" for i
  proof (cases "i = pos")
    case True
    with i have "par pos \<noteq> pos" using par_less [of pos] by simp
    with True i c'_props h2 [of c'] show ?thesis by (simp add: nth_list_update)
  next
    case False
    show ?thesis
    proof (cases "par i = pos")
      case True
      with False i c'_props least [OF i(1,2)] show ?thesis by (simp add: nth_list_update)
    next
      case other: False
      with False i c'_props h1 [OF i(1,2)] show ?thesis by (simp add: nth_list_update)
    qed
  qed
  have part2: "?b ! par c' \<le> ?b ! i" if i: "i < length h" "0 < i" "par i = c'" for i
  proof -
    have "c' < i" using par_less [OF i(2)] i(3) by simp
    with c'_props have "i \<noteq> pos" by simp
    with i c'_props h1 [OF i(1,2)] show ?thesis by (simp add: nth_list_update)
  qed
  show ?thesis
    unfolding hole_down_def using part1 part2 c'_props by simp
qed

lemma siftup_loop_spec:
  "pos < length h \<Longrightarrow> endpos = length h \<Longrightarrow> hole_down h pos \<Longrightarrow> siftup_loop h endpos pos = (h', pos') \<Longrightarrow>
   hole_down h' pos' \<and> pos' < length h' \<and> length h' = length h \<and> length h' \<le> 2 * pos' + 1 \<and>
   (\<forall>v. mset (h'[pos' := v]) = mset (h[pos := v]))"
proof (induction h endpos pos arbitrary: h' pos' rule: siftup_loop.induct)
  case (1 h endpos pos)
  show ?case
  proof (cases "2 * pos + 1 < endpos")
    case True
    define c' where "c' = (if 2 * pos + 1 + 1 < endpos \<and> \<not> h ! (2 * pos + 1) < h ! (2 * pos + 1 + 1)
                          then 2 * pos + 1 + 1 else 2 * pos + 1)"
    have c'_len: "c' < length h" using True "1.prems"(2) by (simp add: c'_def)
    have run: "siftup_loop h endpos pos = siftup_loop (h[pos := h ! c']) endpos c'"
      using True by (simp add: siftup_loop.simps [of h endpos pos] c'_def Let_def)
    have hole: "hole_down (h[pos := h ! c']) c'"
      using hole_down_step [of pos h c'] True "1.prems"(2,3) by (simp add: c'_def)
    from "1.prems"(4) run have loop': "siftup_loop (h[pos := h ! c']) endpos c' = (h', pos')"
      by simp
    have ih: "hole_down h' pos' \<and> pos' < length h' \<and> length h' = length h \<and> length h' \<le> 2 * pos' + 1 \<and>
        (\<forall>v. mset (h'[pos' := v]) = mset ((h[pos := h ! c'])[c' := v]))"
      using "1.IH" [OF refl True refl c'_def _ _ hole loop'] c'_len "1.prems"(2) by simp
    with "1.prems"(1) c'_len show ?thesis by (simp add: mset_update_swap)
  next
    case False
    with "1.prems" show ?thesis by (simp add: siftup_loop.simps [of h "length h" pos])
  qed
qed

lemma hole_down_leaf:
  assumes "hole_down h k" "length h \<le> 2 * k + 1"
  shows "hole_up (h[k := v]) k"
proof -
  have no_child: "par i \<noteq> k" if "i < length h" "0 < i" for i
    using that assms(2) par_eq_iff [of i k] by auto
  show ?thesis
    unfolding hole_up_def
  proof (intro conjI allI impI)
    fix i assume i: "i < length (h[k := v])" "0 < i" "i \<noteq> k"
    with no_child [of i] assms(1) show "h[k := v] ! par i \<le> h[k := v] ! i"
      by (simp add: hole_down_def nth_list_update)
  next
    fix i assume "0 < k" "i < length (h[k := v])" "0 < i" "par i = k"
    with no_child [of i] show "h[k := v] ! par k \<le> h[k := v] ! i" by simp
  qed
qed

subsection \<open>Push and pop\<close>

lemma hole_up_snoc:
  assumes "heap_inv h"
  shows "hole_up (h @ [x]) (length h)"
  unfolding hole_up_def
proof (intro conjI allI impI)
  fix i assume i: "i < length (h @ [x])" "0 < i" "i \<noteq> length h"
  then have "i < length h" "par i < length h" using par_less [of i] by auto
  with i assms show "(h @ [x]) ! par i \<le> (h @ [x]) ! i" by (simp add: heap_inv_def nth_append)
next
  fix i assume "i < length (h @ [x])" "0 < i" "par i = length h"
  then show "(h @ [x]) ! par (length h) \<le> (h @ [x]) ! i" using par_less [of i] by simp
qed

lemma heappush_arr_spec:
  assumes "heap_inv h"
  shows "heap_inv (heappush_arr h x) \<and> mset (heappush_arr h x) = add_mset x (mset h)"
proof -
  have "hole_up ((h @ [x])[length h := x]) (length h)"
    using hole_up_snoc [OF assms] by simp
  then have "heap_inv (siftdown_loop (h @ [x]) 0 (length h) x)"
    by (intro siftdown_loop_heap) simp_all
  moreover have "mset (siftdown_loop (h @ [x]) 0 (length h) x) = add_mset x (mset h)"
    using siftdown_loop_mset [of "length h" "h @ [x]" 0 x] by simp
  ultimately show ?thesis by (simp add: heappush_arr_def siftdown_def)
qed

lemma heap_inv_butlast:
  assumes "heap_inv h"
  shows "heap_inv (butlast h)"
  unfolding heap_inv_def
proof (intro allI impI)
  fix i assume i: "i < length (butlast h)" "0 < i"
  then have "par i < length (butlast h)" using par_less [of i] by simp
  with i assms show "butlast h ! par i \<le> butlast h ! i"
    by (simp add: heap_inv_def nth_butlast)
qed

lemma heappop_arr_spec:
  assumes inv: "heap_inv h" and ne: "h \<noteq> []"
  shows "\<exists>h'. heappop_arr h = Some (Min (set h), h') \<and> heap_inv h' \<and>
           mset h' = mset h - {#Min (set h)#}"
proof (cases "butlast h = []")
  case True
  with ne obtain l where "h = [l]" by (cases h rule: rev_cases) auto
  then show ?thesis by (simp add: heappop_arr_def heap_inv_def)
next
  case False
  let ?h1 = "butlast h" and ?l = "last h"
  let ?h2 = "?h1[0 := ?l]"
  have h: "h = ?h1 @ [?l]" using ne by simp
  from False have len: "Suc 0 < length h" by (cases h rule: rev_cases) auto
  have min: "?h1 ! 0 = Min (set h)"
  proof -
    from len heap_inv_Min [OF inv ne] show ?thesis by (simp add: nth_butlast)
  qed
  have hole: "hole_down ?h2 0"
    using heap_inv_butlast [OF inv]
    by (auto simp: hole_down_def heap_inv_def nth_list_update)
  obtain h' p' where loop: "siftup_loop ?h2 (length ?h2) 0 = (h', p')" by (metis prod.exhaust)
  from siftup_loop_spec [OF _ refl hole loop] len
  have spec: "hole_down h' p'" "p' < length h'" "length h' \<le> 2 * p' + 1"
    "\<forall>v. mset (h'[p' := v]) = mset (?h2[0 := v])"
    by auto
  have up: "hole_up ((h'[p' := ?l])[p' := ?l]) p'"
    using hole_down_leaf [OF spec(1,3)] by simp
  have res: "siftup ?h2 0 = siftdown_loop (h'[p' := ?l]) 0 p' ?l"
    using loop len spec(2) by (simp add: siftup_def siftdown_def Let_def)
  have "heap_inv (siftup ?h2 0)"
    unfolding res using spec(2) up by (intro siftdown_loop_heap) simp_all
  moreover have "mset (siftup ?h2 0) = mset h - {#Min (set h)#}"
  proof -
    have "mset (siftup ?h2 0) = mset (?h2[0 := ?l])"
      unfolding res using siftdown_loop_mset [of p' "h'[p' := ?l]" 0 ?l] spec(2,4) by simp
    also have "\<dots> = add_mset ?l (mset ?h1 - {#?h1 ! 0#})"
      using len by (simp add: mset_update)
    also have "\<dots> = mset h - {#Min (set h)#}"
    proof -
      have m: "Min (set h) \<in># mset ?h1" using min False by (metis nth_mem length_greater_0_conv set_mset_mset)
      from h have "mset h = mset (?h1 @ [?l])" by (rule arg_cong)
      also have "\<dots> = add_mset ?l (mset ?h1)" by simp
      finally show ?thesis using m min by (simp add: diff_union_single_conv)
    qed
    finally show ?thesis .
  qed
  ultimately show ?thesis
    using ne False min by (simp add: heappop_arr_def Let_def)
qed

lemma mset_heappush_arr: "mset (heappush_arr h x) = add_mset x (mset h)"
  using siftdown_loop_mset [of "length h" "h @ [x]" 0 x] by (simp add: heappush_arr_def siftdown_def)

lemma heap_inv_code [eval_simps]: "heap_inv h \<longleftrightarrow> (\<forall>i \<in> set [1..<length h]. h ! par i \<le> h ! i)"
  by (auto simp: heap_inv_def)

lemmas par_eval [eval_simps] = par_def

subsection \<open>Lengths\<close>

lemma length_siftdown_loop: "length (siftdown_loop h s pos x) = length h"
  by (induction h s pos x rule: siftdown_loop.induct) (simp add: siftdown_loop.simps Let_def)

lemma length_siftup_loop: "siftup_loop h e pos = (h', p) \<Longrightarrow> length h' = length h"
proof (induction h e pos arbitrary: h' p rule: siftup_loop.induct)
  case (1 h e pos)
  then show ?case by (simp add: siftup_loop.simps [of h e pos] Let_def split: if_splits)
qed

lemma length_siftup: "length (siftup h pos) = length h"
  by (auto simp: siftup_def siftdown_def Let_def length_siftdown_loop
      dest: length_siftup_loop split: prod.split)

lemma length_heappop_arr:
  assumes "heappop_arr h = Some (x, h')"
  shows "Suc (length h') = length h"
proof (cases h rule: rev_cases)
  case Nil
  with assms show ?thesis by (simp add: heappop_arr_def)
next
  case (snoc ys y)
  with assms show ?thesis by (auto simp: heappop_arr_def length_siftup split: if_splits)
qed

end
