(* ===== verification/DijkstraHeap.thy ===== *)
theory DijkstraHeap
  imports Dijkstra HeapArray
begin

text \<open>
  The search of \<^verbatim>\<open>src/ShortestRoute.py\<close> (lines 104--118) run over the array heap of
  \<open>HeapArray\<close>: \<open>push_neighbors_arr\<close>, \<open>dijkstra_loop_arr\<close> and \<open>dijkstra_arr\<close> are
  \<open>push_neighbors\<close>, \<open>dijkstra_loop\<close> and \<open>dijkstra\<close> with \<^verbatim>\<open>heapq.heappush\<close> and
  \<^verbatim>\<open>heapq.heappop\<close> as CPython implements them, and the IndexError of a pop as \<open>None\<close>.
  The lemmas show that the loop keeps the heap property, that it never raises, and that
  it returns exactly what the search over the multiset heap of \<open>HeapQ\<close> returns, so
  every property of \<open>Dijkstra\<close> holds of the program with its real priority queue.
\<close>

fun push_neighbors_arr ::
  "'n::linorder set \<Rightarrow> 'w::{plus, linorder} \<Rightarrow> 'n list \<Rightarrow> ('n \<times> 'w) list \<Rightarrow> ('n, 'w) entry list
   \<Rightarrow> ('n, 'w) entry list"
where
  "push_neighbors_arr visited d path [] heap = heap"
| "push_neighbors_arr visited d path ((neighbor, weight) # es) heap =
     push_neighbors_arr visited d path es
       (if neighbor \<notin> visited then heappush_arr heap (d + weight, neighbor, path) else heap)"

subsection \<open>Lengths\<close>

lemma length_push_neighbors_arr:
  "length (push_neighbors_arr V d p es h) \<le> length h + length es"
proof (induction V d p es h rule: push_neighbors_arr.induct)
  case (2 V d p neighbor weight es h)
  then show ?case by (auto simp: heappush_arr_def siftdown_def length_siftdown_loop)
qed simp

lemma loop_measure_pop_arr:
  "Some (x, heap') = heappop_arr heap \<Longrightarrow> loop_measure g heap' V < loop_measure g heap V"
  by (auto simp: loop_measure_def dest!: length_heappop_arr [OF sym])

lemma loop_measure_push_arr:
  assumes "Some (x, heap') = heappop_arr heap" "(d, n, p) = x" "n \<notin> V"
  shows "loop_measure g (push_neighbors_arr (insert n V) d q (adj g n) heap') (insert n V) < loop_measure g heap V"
  using length_heappop_arr [OF assms(1) [symmetric]] length_push_neighbors_arr [of "insert n V" d q "adj g n" heap']
    assms(3) by (auto intro!: loop_measure_visit)

function dijkstra_loop_arr ::
  "('n::linorder, 'w::linordered_ab_group_add) graph \<Rightarrow> 'n \<Rightarrow> ('n, 'w) entry list \<Rightarrow> 'n set
   \<Rightarrow> ('w dist \<times> 'n list) option"
where
  "dijkstra_loop_arr g target heap visited =
     (if heap = [] then Some (Infinity, [])
      else case heappop_arr heap of
        None \<Rightarrow> None
      | Some ((d, node, path), heap') \<Rightarrow>
          if node \<in> visited then dijkstra_loop_arr g target heap' visited
          else (let visited' = insert node visited; path' = path @ [node] in
                if node = target then Some (Fin d, path')
                else dijkstra_loop_arr g target (push_neighbors_arr visited' d path' (adj g node) heap') visited'))"
  by pat_completeness auto
termination
  by (relation "measure (\<lambda>(g, e, heap, visited). loop_measure g heap visited)")
    (auto intro: loop_measure_pop_arr loop_measure_push_arr)

declare dijkstra_loop_arr.simps [simp del]

definition dijkstra_arr ::
  "('n::linorder, 'w::linordered_ab_group_add) graph \<Rightarrow> 'n \<Rightarrow> 'n \<Rightarrow> ('w dist \<times> 'n list) option"
where
  "dijkstra_arr g start target = dijkstra_loop_arr g target [(0, start, [])] {}"

lemmas dijkstra_arr_eval [eval_simps] = dijkstra_loop_arr.simps dijkstra_arr_def

subsection \<open>Refinement of the multiset search\<close>

lemma heap_inv_push_neighbors_arr: "heap_inv h \<Longrightarrow> heap_inv (push_neighbors_arr V d p es h)"
  by (induction V d p es h rule: push_neighbors_arr.induct) (simp_all add: heappush_arr_spec)

lemma mset_push_neighbors_arr:
  "mset h1 = mset h2 \<Longrightarrow> mset (push_neighbors_arr V d p es h1) = mset (push_neighbors V d p es h2)"
proof (induction V d p es h1 arbitrary: h2 rule: push_neighbors_arr.induct)
  case (2 V d p neighbor weight es h1)
  let ?e = "(d + weight, neighbor, p)"
  have "mset (if neighbor \<notin> V then heappush_arr h1 ?e else h1) =
        mset (if neighbor \<notin> V then heappush h2 ?e else h2)"
    using "2.prems" by (simp add: mset_heappush_arr)
  then have "mset (push_neighbors_arr V d p es (if neighbor \<notin> V then heappush_arr h1 ?e else h1)) =
             mset (push_neighbors V d p es (if neighbor \<notin> V then heappush h2 ?e else h2))"
    by (rule "2.IH")
  then show ?case by (simp only: push_neighbors_arr.simps push_neighbors.simps)
qed simp

lemma loop_arr_refines:
  "heap_inv H \<Longrightarrow> dijkstra_loop_arr g t H V = Some (dijkstra_loop g t H V)"
proof (induction g t H V rule: dijkstra_loop_arr.induct)
  case (1 g t H V)
  show ?case
  proof (cases "H = []")
    case True
    then show ?thesis by (simp add: dijkstra_loop_arr.simps loop_empty)
  next
    case False
    obtain H' where pop0: "heappop_arr H = Some (Min (set H), H')" and inv': "heap_inv H'"
      and ms: "mset H' = mset H - {#Min (set H)#}"
      using heappop_arr_spec [OF "1.prems" False] by blast
    obtain d n p where m: "Min (set H) = (d, n, p)" by (metis prod.exhaust)
    have pop: "heappop_arr H = Some ((d, n, p), H')" using pop0 m by simp
    have apop: "heappop H = ((d, n, p), remove1 (d, n, p) H)" by (simp add: heappop_def m)
    have ms': "mset H' = mset (remove1 (d, n, p) H)" using ms m by simp
    consider (skipped) "n \<in> V" | (target) "n \<notin> V" "n = t" | (pushed) "n \<notin> V" "n \<noteq> t"
      by blast
    then show ?thesis
    proof cases
      case skipped
      have "dijkstra_loop_arr g t H V = dijkstra_loop_arr g t H' V"
        using False pop skipped by (simp add: dijkstra_loop_arr.simps [of g t H V])
      also have "\<dots> = Some (dijkstra_loop g t H' V)"
        by (rule "1.IH"(1) [OF False pop refl refl refl skipped inv'])
      also have "dijkstra_loop g t H' V = dijkstra_loop g t H V"
        using loop_mset_cong [OF ms'] loop_skip [OF False apop skipped] by simp
      finally show ?thesis .
    next
      case target
      have "dijkstra_loop_arr g t H V = Some (Fin d, p @ [t])"
        using False pop target by (simp add: dijkstra_loop_arr.simps [of g t H V])
      with False apop target show ?thesis by (simp add: loop_found)
    next
      case pushed
      let ?V = "insert n V" and ?p = "p @ [n]"
      let ?H2 = "push_neighbors_arr ?V d ?p (adj g n) H'"
      have "dijkstra_loop_arr g t H V = dijkstra_loop_arr g t ?H2 ?V"
        using False pop pushed by (simp add: dijkstra_loop_arr.simps [of g t H V] Let_def)
      also have "\<dots> = Some (dijkstra_loop g t ?H2 ?V)"
        by (rule "1.IH"(2) [OF False pop refl refl refl pushed(1) refl refl pushed(2)
              heap_inv_push_neighbors_arr [OF inv']])
      also have "dijkstra_loop g t ?H2 ?V = dijkstra_loop g t H V"
        using loop_mset_cong [OF mset_push_neighbors_arr [OF ms']] loop_visit [OF False apop pushed]
        by simp
      finally show ?thesis .
    qed
  qed
qed

subsection \<open>The search with its real priority queue\<close>

text \<open>
  C7. Run with CPython's \<^verbatim>\<open>heapq\<close>, the search never raises IndexError and returns
  exactly the distance and path of the search over the multiset heap, for every graph
  and every pair of nodes.
\<close>

theorem dijkstra_arr_refines: "dijkstra_arr g s t = Some (dijkstra g s t)"
  unfolding dijkstra_arr_def dijkstra_def
  by (rule loop_arr_refines) (simp add: heap_inv_def)

lemma dijkstra_arr_triangle:
  "dijkstra_arr [(''A'', [(''B'', 1), (''C'', 10)]), (''B'', [(''A'', 1), (''C'', 2)]),
                 (''C'', [(''B'', 2), (''A'', 10)])] ''A'' ''C''
   = Some (Fin (3::int), [''A'', ''B'', ''C''])"
  by (simp add: eval_simps)

subsection \<open>The heap of the search\<close>

text \<open>
  C11. The heap operations of the search keep the heap property: the pushes of lines
  115--117 and the pop of line 108, done by CPython's \<^verbatim>\<open>heapq\<close> on a heap, leave a
  list in which no entry is smaller than its parent at \<open>(i - 1) div 2\<close>.
\<close>

theorem search_keeps_heap:
  "heap_inv h \<Longrightarrow>
   heap_inv (push_neighbors_arr V d p es h) \<and> (\<forall>y h'. heappop_arr h = Some (y, h') \<longrightarrow> heap_inv h')"
proof -
  assume inv: "heap_inv h"
  have "heap_inv h'" if pop: "heappop_arr h = Some (y, h')" for y h'
  proof -
    from pop have "h \<noteq> []" by (auto simp: heappop_arr_def)
    with heappop_arr_spec [OF inv] pop show ?thesis by auto
  qed
  with heap_inv_push_neighbors_arr [OF inv] show ?thesis by blast
qed

theorem search_keeps_heap_witness:
  "push_neighbors_arr {} 0 [''A''] [(''B'', 1), (''C'', 10), (''D'', 2)] [(5 :: int, ''E'', [])] =
     [(1, ''B'', [''A'']), (2, ''D'', [''A'']), (10, ''C'', [''A'']), (5, ''E'', [])] \<and>
   heap_inv [(1 :: int, ''B'', [''A'']), (2, ''D'', [''A'']), (10, ''C'', [''A'']), (5, ''E'', [])]"
proof -
  have inv: "heap_inv [(5 :: int, ''E'', [] :: string list)]" by (simp add: heap_inv_def)
  have "push_neighbors_arr {} 0 [''A''] [(''B'', 1), (''C'', 10), (''D'', 2)] [(5 :: int, ''E'', [])] =
     [(1, ''B'', [''A'']), (2, ''D'', [''A'']), (10, ''C'', [''A'']), (5, ''E'', [])]"
    by (simp add: eval_simps)
  with search_keeps_heap [OF inv, of "{}" 0 "[''A'']" "[(''B'', 1), (''C'', 10), (''D'', 2)]"]
  show ?thesis by simp
qed

text \<open>
  C10. The heap operations of the search implement the multiset model the search is
  proved against: on a heap, the pushes of lines 115--117 hold the same entries as the
  multiset pushes; popping an empty list raises IndexError; popping a non-empty heap
  returns the same least entry as the multiset pop and leaves the same entries.
\<close>

theorem search_heap_refines:
  "heap_inv h \<Longrightarrow>
   mset (push_neighbors_arr V d p es h) = mset (push_neighbors V d p es h) \<and>
   (if h = [] then heappop_arr h = None
    else (\<exists>h'. heappop_arr h = Some (fst (heappop h), h') \<and> mset h' = mset (snd (heappop h))))"
proof -
  assume inv: "heap_inv h"
  have "\<exists>h'. heappop_arr h = Some (fst (heappop h), h') \<and> mset h' = mset (snd (heappop h))"
    if "h \<noteq> []"
    using heappop_arr_spec [OF inv that] by (auto simp: heappop_def)
  then show ?thesis by (simp add: mset_push_neighbors_arr heappop_arr_def)
qed

theorem search_heap_refines_witness:
  "heappop_arr [(1 :: int, ''B'', [''A'']), (2, ''D'', [''A'']), (10, ''C'', [''A'']), (5, ''E'', [])] =
     Some ((1, ''B'', [''A'']), [(2, ''D'', [''A'']), (5, ''E'', []), (10, ''C'', [''A''])]) \<and>
   fst (heappop [(1 :: int, ''B'', [''A'']), (2, ''D'', [''A'']), (10, ''C'', [''A'']), (5, ''E'', [])]) =
     (1, ''B'', [''A''])"
proof -
  let ?h = "[(1 :: int, ''B'', [''A'']), (2, ''D'', [''A'']), (10, ''C'', [''A'']), (5, ''E'', [])]"
  have inv: "heap_inv ?h" by (simp add: eval_simps)
  have pop: "heappop_arr ?h = Some ((1, ''B'', [''A'']), [(2, ''D'', [''A'']), (5, ''E'', []), (10, ''C'', [''A''])])"
    by (simp add: eval_simps)
  from search_heap_refines [OF inv, of "{}" 0 "[]" "[]"] pop show ?thesis by auto
qed

end
