(* ===== verification/ShortestRef.thy ===== *)
theory ShortestRef
  imports Dijkstra
begin

text \<open>
  A reference definition of what the search of \<^verbatim>\<open>src/ShortestRoute.py\<close> computes,
  independent of any queue: \<open>paths_from\<close> enumerates, depth first, every path without
  repeated nodes that starts with a given path, with its length; \<open>shortest_ref\<close> is the
  least length of such a path from the source to the target, or infinity if there is
  none. The lemmas show that the enumeration yields exactly the walks without repeated
  nodes, and that with non-negative road lengths \<open>dijkstra\<close> returns the reference
  distance.
\<close>

definition targets :: "('n, 'w) graph \<Rightarrow> 'n set" where
  "targets g = (\<Union>(u, es) \<in> set g. fst ` set es)"

lemma finite_targets [simp]: "finite (targets g)"
  by (auto simp: targets_def)

lemma adj_targets: "(x, w) \<in> set (adj g u) \<Longrightarrow> x \<in> targets g"
  by (force simp: targets_def dest: adj_in_graph)

function paths_from :: "('n, 'w::plus) graph \<Rightarrow> 'n list \<Rightarrow> 'w \<Rightarrow> ('n list \<times> 'w) list" where
  "paths_from g p c =
     (p, c) # concat (map (\<lambda>(x, w). if x \<in> set p then [] else paths_from g (p @ [x]) (c + w))
                          (adj g (last p)))"
  by pat_completeness auto
termination
proof (relation "measure (\<lambda>(g, p, c). card (targets g - set p))")
  fix g :: "('n, 'w::plus) graph" and p c xw x w
  assume "xw \<in> set (adj g (last p))" "(x, w) = xw" "x \<notin> set p"
  then have x: "x \<in> targets g - set p" by (auto intro: adj_targets)
  then have pos: "0 < card (targets g - set p)" by (auto simp: card_gt_0_iff)
  have "targets g - set (p @ [x]) = (targets g - set p) - {x}" by auto
  with x pos show "((g, p @ [x], c + w), g, p, c) \<in> measure (\<lambda>(g, p, c). card (targets g - set p))"
    by (simp add: card_Diff_singleton)
qed simp

declare paths_from.simps [simp del]

definition shortest_ref :: "('n, 'w::linordered_ab_group_add) graph \<Rightarrow> 'n \<Rightarrow> 'n \<Rightarrow> 'w dist" where
  "shortest_ref g s t =
     Min (insert Infinity (set (map (\<lambda>(p, c). Fin c) (filter (\<lambda>(p, c). last p = t) (paths_from g [s] 0)))))"

lemmas shortest_ref_eval [eval_simps] = paths_from.simps shortest_ref_def

subsection \<open>The enumeration yields the walks without repeated nodes\<close>

lemma paths_from_sound:
  "(q, d) \<in> set (paths_from g p c) \<Longrightarrow> walk g s p c \<Longrightarrow> distinct p \<Longrightarrow> walk g s q d \<and> distinct q"
proof (induction g p c rule: paths_from.induct)
  case (1 g p c)
  from "1.prems"(1) consider "(q, d) = (p, c)"
    | x w where "(x, w) \<in> set (adj g (last p))" "x \<notin> set p" "(q, d) \<in> set (paths_from g (p @ [x]) (c + w))"
    by (subst (asm) paths_from.simps) (auto split: if_splits)
  then show ?case
  proof cases
    case 1
    with "1.prems" show ?thesis by simp
  next
    case (2 x w)
    have "walk g s (p @ [x]) (c + w)" by (rule walk_step [OF "1.prems"(2) 2(1)])
    moreover have "distinct (p @ [x])" using "1.prems"(3) 2(2) by simp
    ultimately show ?thesis using "1.IH" [OF 2(1) refl 2(2) 2(3)] by blast
  qed
qed

lemma paths_from_head: "(p, c) \<in> set (paths_from g p c)"
  by (subst paths_from.simps) simp

lemma paths_from_child:
  "(x, w) \<in> set (adj g (last p)) \<Longrightarrow> x \<notin> set p \<Longrightarrow>
   set (paths_from g (p @ [x]) (c + w)) \<subseteq> set (paths_from g p c)"
  by (subst (2) paths_from.simps) force

lemma paths_from_closed:
  "(q, d) \<in> set (paths_from g p c) \<Longrightarrow> set (paths_from g q d) \<subseteq> set (paths_from g p c)"
proof (induction g p c rule: paths_from.induct)
  case (1 g p c)
  from "1.prems" consider "(q, d) = (p, c)"
    | x w where "(x, w) \<in> set (adj g (last p))" "x \<notin> set p" "(q, d) \<in> set (paths_from g (p @ [x]) (c + w))"
    by (subst (asm) paths_from.simps) (auto split: if_splits)
  then show ?case
  proof cases
    case (2 x w)
    with "1.IH" [OF 2(1) refl 2(2) 2(3)] paths_from_child [OF 2(1,2)] show ?thesis by blast
  qed simp
qed

lemma paths_from_complete:
  "walk g s q d \<Longrightarrow> distinct q \<Longrightarrow> (q, d) \<in> set (paths_from g [s] 0)"
proof (induction rule: walk.induct)
  case walk_start
  show ?case by (rule paths_from_head)
next
  case (walk_step ns c x w)
  then have in_tree: "(ns, c) \<in> set (paths_from g [s] 0)" and x: "x \<notin> set ns" by auto
  have "(ns @ [x], c + w) \<in> set (paths_from g ns c)"
    using paths_from_child [OF walk_step.hyps(2) x] paths_from_head by blast
  with paths_from_closed [OF in_tree] show ?case by blast
qed

lemma paths_from_walks:
  "(q, d) \<in> set (paths_from g [s] 0) \<longleftrightarrow> walk g s q d \<and> distinct q"
  using paths_from_sound [of q d g "[s]" 0 s] paths_from_complete [of g s q d]
  by (auto intro: walk_start)

lemma shortest_ref_candidates:
  "x \<in> set (map (\<lambda>(p, c). Fin c) (filter (\<lambda>(p, c). last p = t) (paths_from g [s] 0))) \<longleftrightarrow>
   (\<exists>q c. x = Fin c \<and> walk g s q c \<and> distinct q \<and> last q = t)"
  by (force simp: paths_from_walks)

subsection \<open>The search computes the reference distance\<close>

text \<open>
  C8. With non-negative road lengths the distance \<open>dijkstra\<close> returns is the reference
  distance: the least length of a path without repeated nodes from the source to the
  target, and infinity exactly when there is no such path.
\<close>

theorem dijkstra_equals_reference:
  assumes nn: "nonneg_weights g"
  shows "fst (dijkstra g s t) = shortest_ref g s t"
proof -
  let ?C = "set (map (\<lambda>(p, c). Fin c) (filter (\<lambda>(p, c). last p = t) (paths_from g [s] 0)))"
  obtain r path where r: "dijkstra g s t = (r, path)" by (metis prod.exhaust)
  have "Min (insert Infinity ?C) = r"
  proof (rule Min_eqI)
    fix y assume "y \<in> insert Infinity ?C"
    then consider "y = Infinity" | q c where "y = Fin c" "walk g s q c" "last q = t"
      using shortest_ref_candidates [of y t g s] by blast
    then show "r \<le> y"
    proof cases
      case 1
      then show ?thesis by (cases r) simp_all
    next
      case 2
      with r have "r \<noteq> Infinity" by (blast intro: dijkstra_Infinity_unreachable)
      then obtain d where "r = Fin d" by (cases r) auto
      with r 2 dijkstra_least [OF nn] show ?thesis by auto
    qed
  next
    show "r \<in> insert Infinity ?C"
    proof (cases r)
      case (Fin d)
      with r have "walk g s path d \<and> last path = t \<and> distinct path" by (simp add: dijkstra_walk)
      with Fin show ?thesis using shortest_ref_candidates [of r t g s] by blast
    qed simp
  qed simp
  with r show ?thesis by (simp add: shortest_ref_def)
qed

theorem dijkstra_equals_reference_witness:
  "shortest_ref [(''A'', [(''B'', 1), (''C'', 10)]), (''B'', [(''A'', 1), (''C'', 2)]),
                 (''C'', [(''B'', 2), (''A'', 10)])] ''A'' ''C'' = Fin (3::int)"
proof -
  let ?g = "[(''A'', [(''B'', 1), (''C'', 10)]), (''B'', [(''A'', 1), (''C'', 2)]),
             (''C'', [(''B'', 2), (''A'', 10)])] :: (string, int) graph"
  have nn: "nonneg_weights ?g" by (simp add: nonneg_weights_def)
  have "dijkstra ?g ''A'' ''C'' = (Fin 3, [''A'', ''B'', ''C''])" by (simp add: eval_simps)
  with dijkstra_equals_reference [OF nn, of "''A''" "''C''"] show ?thesis by simp
qed

lemma shortest_ref_triangle:
  "shortest_ref [(''A'', [(''B'', 1), (''C'', 10)]), (''B'', [(''A'', 1), (''C'', 2)]),
                 (''C'', [(''B'', 2), (''A'', 10)])] ''A'' ''C'' = Fin (3::int)"
  by (simp add: eval_simps)

end
