(* ===== verification/Messages.thy ===== *)
theory Messages
  imports App
begin

text \<open>
  The texts the "Compute Shortest Path" handler of \<^verbatim>\<open>src/ShortestRoute.py\<close> displays
  (lines 121--125). An f-string is a list of segments: literal text and the names it
  interpolates are \<open>Txt\<close>, an interpolated float is \<open>Num\<close> (the digits Python prints
  for it are not modelled). Strings are byte lists; the arrow \<^verbatim>\<open>" \<rightarrow> "\<close> that
  \<^verbatim>\<open>' \<rightarrow> '.join(path)\<close> puts between the nodes of the path is the space, the three
  UTF-8 bytes of U+2192 and a space. The lemmas show that the displayed path determines
  the path when no location name contains the arrow; location names are free text, so
  the hypothesis is needed.
\<close>

datatype segment = Txt string | Num rat

type_synonym message = "segment list"

definition arrow :: string where
  "arrow = [CHR 0x20, CHR 0xE2, CHR 0x86, CHR 0x92, CHR 0x20]"

text \<open>Python's \<^verbatim>\<open>sep.join(xs)\<close>.\<close>

fun join :: "string \<Rightarrow> string list \<Rightarrow> string" where
  "join sep [] = []"
| "join sep [x] = x"
| "join sep (x # y # xs) = x @ sep @ join sep (y # xs)"

definition path_messages :: "rat path_result \<Rightarrow> message list" where
  "path_messages r =
     (case r of
       NoPathExists source dest \<Rightarrow> [[Txt ''No path exists from '', Txt source, Txt '' to '', Txt dest, Txt ''.'']]
     | ShortestPath distance path colors \<Rightarrow>
         [[Txt ''Shortest Distance: '', Num distance], [Txt ''Shortest Path: '', Txt (join arrow path)]])"

lemmas messages_eval [eval_simps] = arrow_def path_messages_def

subsection \<open>Reading the path back\<close>

abbreviation no_arrow :: "string \<Rightarrow> bool" where
  "no_arrow x \<equiv> CHR 0xE2 \<notin> set x"

lemma takeWhile_arrow:
  "no_arrow x \<Longrightarrow> takeWhile (\<lambda>c. c \<noteq> CHR 0xE2) (x @ arrow @ r) = x @ [CHR 0x20]"
  by (induction x) (auto simp: arrow_def)

lemma dropWhile_arrow:
  "no_arrow x \<Longrightarrow> dropWhile (\<lambda>c. c \<noteq> CHR 0xE2) (x @ arrow @ r) = [CHR 0xE2, CHR 0x86, CHR 0x92, CHR 0x20] @ r"
  by (induction x) (auto simp: arrow_def)

lemma arrow_in_join:
  "\<forall>x \<in> set xs. no_arrow x \<Longrightarrow> CHR 0xE2 \<in> set (join arrow xs) \<longleftrightarrow> 2 \<le> length xs"
  by (induction arrow xs rule: join.induct) (auto simp: arrow_def)

lemma join_arrow_inj:
  "\<forall>x \<in> set p. no_arrow x \<Longrightarrow> \<forall>x \<in> set q. no_arrow x \<Longrightarrow> p \<noteq> [] \<Longrightarrow> q \<noteq> [] \<Longrightarrow>
   join arrow p = join arrow q \<Longrightarrow> p = q"
proof (induction p arbitrary: q)
  case (Cons x xs)
  show ?case
  proof (cases xs)
    case Nil
    with Cons.prems(1,5) arrow_in_join [OF Cons.prems(2)] have "length q < 2" by auto
    with Cons.prems(4) obtain y where "q = [y]" by (cases q) (auto simp: neq_Nil_conv)
    with Cons.prems(5) Nil show ?thesis by simp
  next
    case (Cons x' xs')
    with Cons.prems(1,5) arrow_in_join [OF Cons.prems(2)] arrow_in_join [OF Cons.prems(1)]
    have "2 \<le> length q" by auto
    then obtain y y' ys where q: "q = y # y' # ys" by (cases q rule: remdups_adj.cases) auto
    have jp: "join arrow (x # xs) = x @ arrow @ join arrow xs" and jq: "join arrow q = y @ arrow @ join arrow (y' # ys)"
      using Cons q by simp_all
    have nx: "no_arrow x" and ny: "no_arrow y" using \<open>\<forall>x \<in> set (x # xs). no_arrow x\<close> Cons.prems(2) q by auto
    from Cons.prems(5) have eq: "x @ arrow @ join arrow xs = y @ arrow @ join arrow (y' # ys)" by (simp only: jp jq)
    from arg_cong [OF eq, of "takeWhile (\<lambda>c. c \<noteq> CHR 0xE2)"] have "x = y"
      by (simp add: takeWhile_arrow [OF nx] takeWhile_arrow [OF ny])
    moreover from arg_cong [OF eq, of "dropWhile (\<lambda>c. c \<noteq> CHR 0xE2)"]
    have "join arrow xs = join arrow (y' # ys)"
      by (simp add: dropWhile_arrow [OF nx] dropWhile_arrow [OF ny])
    then have "xs = y' # ys"
      using Cons.IH [of "y' # ys"] \<open>\<forall>x \<in> set (x # xs). no_arrow x\<close> Cons.prems(2) q \<open>xs = x' # xs'\<close> by auto
    ultimately show ?thesis using q by simp
  qed
qed simp

subsection \<open>Properties of the displayed path\<close>

text \<open>
  C20. The texts of a found path can be read back: two results whose displayed messages
  are equal have the same distance and the same path, provided the paths are not empty
  and no location name on them contains the arrow character.
\<close>

theorem path_message_roundtrip:
  assumes "path_messages (ShortestPath d p cs) = path_messages (ShortestPath d' q cs')"
    "p \<noteq> []" "q \<noteq> []" "\<forall>x \<in> set p. no_arrow x" "\<forall>x \<in> set q. no_arrow x"
  shows "d = d' \<and> p = q"
proof -
  from assms(1) have "d = d'" "join arrow p = join arrow q" by (simp_all add: path_messages_def)
  with join_arrow_inj [OF assms(4,5,2,3)] show ?thesis by simp
qed

theorem path_message_roundtrip_witness:
  "path_messages (ShortestPath 3 [''A'', ''B'', ''C''] [Red, Black, Red]) =
     [[Txt ''Shortest Distance: '', Num 3], [Txt ''Shortest Path: '', Txt (''A'' @ arrow @ ''B'' @ arrow @ ''C'')]] \<and>
   [''A'', ''B'', ''C''] = [''A'', ''B'', ''C'']"
proof -
  have "path_messages (ShortestPath 3 [''A'', ''B'', ''C''] [Red, Black, Red]) =
     [[Txt ''Shortest Distance: '', Num 3], [Txt ''Shortest Path: '', Txt (''A'' @ arrow @ ''B'' @ arrow @ ''C'')]]"
    by (simp add: path_messages_def)
  moreover have "(3::rat) = 3 \<and> [''A'', ''B'', ''C''] = [''A'', ''B'', ''C'']"
    by (rule path_message_roundtrip [of 3 "[''A'', ''B'', ''C'']" "[Red, Black, Red]" 3 "[''A'', ''B'', ''C'']"
          "[Red, Black, Red]"]) simp_all
  ultimately show ?thesis by simp
qed

end
