(* ===== verification/HeapBy.thy ===== *)
theory HeapBy
  imports HeapArray
begin

text \<open>
  \<^verbatim>\<open>heapq\<close>'s array operations with the comparison as a parameter \<open>lt\<close>. CPython's
  \<^verbatim>\<open>_siftdown\<close>, \<^verbatim>\<open>_siftup\<close>, \<^verbatim>\<open>heappush\<close> and \<^verbatim>\<open>heappop\<close> only ever evaluate
  \<^verbatim>\<open>a < b\<close> on two items, and Python's \<^verbatim>\<open><\<close> on tuples holding floats is not a
  linear order once a NaN is among them. So the definitions of \<open>HeapArray\<close> are repeated
  here over an arbitrary relation \<open>lt\<close>. The lemmas show, whatever \<open>lt\<close> is, that the operations
  never fail on a non-empty list, that a push adds its item and a pop removes the item it
  returns: the sift loops only move items.
\<close>

function siftdown_loop_by :: "('a \<Rightarrow> 'a \<Rightarrow> bool) \<Rightarrow> 'a list \<Rightarrow> nat \<Rightarrow> nat \<Rightarrow> 'a \<Rightarrow> 'a list" where
  "siftdown_loop_by lt heap startpos pos newitem =
     (if startpos < pos then
        (let parentpos = (pos - 1) div 2; parent = heap ! parentpos in
         if lt newitem parent then siftdown_loop_by lt (heap[pos := parent]) startpos parentpos newitem
         else heap[pos := newitem])
      else heap[pos := newitem])"
  by pat_completeness auto
termination
  by (relation "measure (\<lambda>(lt, heap, startpos, pos, newitem). pos)") auto

definition siftdown_by :: "('a \<Rightarrow> 'a \<Rightarrow> bool) \<Rightarrow> 'a list \<Rightarrow> nat \<Rightarrow> nat \<Rightarrow> 'a list" where
  "siftdown_by lt heap startpos pos = siftdown_loop_by lt heap startpos pos (heap ! pos)"

function siftup_loop_by :: "('a \<Rightarrow> 'a \<Rightarrow> bool) \<Rightarrow> 'a list \<Rightarrow> nat \<Rightarrow> nat \<Rightarrow> 'a list \<times> nat" where
  "siftup_loop_by lt heap endpos pos =
     (let childpos = 2 * pos + 1 in
      if childpos < endpos then
        (let rightpos = childpos + 1;
             childpos' = (if rightpos < endpos \<and> \<not> lt (heap ! childpos) (heap ! rightpos) then rightpos else childpos)
         in siftup_loop_by lt (heap[pos := heap ! childpos']) endpos childpos')
      else (heap, pos))"
  by pat_completeness auto
termination
  by (relation "measure (\<lambda>(lt, heap, endpos, pos). endpos - pos)") (auto simp: Let_def)

definition siftup_by :: "('a \<Rightarrow> 'a \<Rightarrow> bool) \<Rightarrow> 'a list \<Rightarrow> nat \<Rightarrow> 'a list" where
  "siftup_by lt heap pos =
     (let startpos = pos; newitem = heap ! pos in
      case siftup_loop_by lt heap (length heap) pos of
        (heap', pos') \<Rightarrow> siftdown_by lt (heap'[pos' := newitem]) startpos pos')"

definition heappush_by :: "('a \<Rightarrow> 'a \<Rightarrow> bool) \<Rightarrow> 'a list \<Rightarrow> 'a \<Rightarrow> 'a list" where
  "heappush_by lt heap item = siftdown_by lt (heap @ [item]) 0 (length heap)"

definition heappop_by :: "('a \<Rightarrow> 'a \<Rightarrow> bool) \<Rightarrow> 'a list \<Rightarrow> ('a \<times> 'a list) option" where
  "heappop_by lt heap =
     (if heap = [] then None
      else
        (let lastelt = last heap; heap' = butlast heap in
         if heap' \<noteq> [] then
           (let returnitem = heap' ! 0 in Some (returnitem, siftup_by lt (heap'[0 := lastelt]) 0))
         else Some (lastelt, heap')))"

declare siftdown_loop_by.simps [simp del] siftup_loop_by.simps [simp del]

lemmas heap_by_eval [eval_simps] = siftdown_loop_by.simps siftdown_by_def siftup_loop_by.simps
  siftup_by_def heappush_by_def heappop_by_def

subsection \<open>Lengths and failure\<close>

lemma length_siftdown_loop_by: "length (siftdown_loop_by lt h s pos x) = length h"
  by (induction lt h s pos x rule: siftdown_loop_by.induct) (simp add: siftdown_loop_by.simps Let_def)

lemma length_siftup_loop_by: "siftup_loop_by lt h e pos = (h', p) \<Longrightarrow> length h' = length h"
proof (induction lt h e pos arbitrary: h' p rule: siftup_loop_by.induct)
  case (1 lt h e pos)
  then show ?case by (simp add: siftup_loop_by.simps [of lt h e pos] Let_def split: if_splits)
qed

lemma length_siftup_by: "length (siftup_by lt h pos) = length h"
  by (auto simp: siftup_by_def siftdown_by_def Let_def length_siftdown_loop_by
      dest: length_siftup_loop_by split: prod.split)

lemma length_heappush_by [simp]: "length (heappush_by lt h x) = Suc (length h)"
  by (simp add: heappush_by_def siftdown_by_def length_siftdown_loop_by)

lemma length_heappop_by:
  assumes "heappop_by lt h = Some (x, h')"
  shows "Suc (length h') = length h"
proof (cases h rule: rev_cases)
  case Nil
  with assms show ?thesis by (simp add: heappop_by_def)
next
  case (snoc ys y)
  with assms show ?thesis by (auto simp: heappop_by_def length_siftup_by split: if_splits)
qed

lemma heappop_by_None [simp]: "heappop_by lt h = None \<longleftrightarrow> h = []"
  by (simp add: heappop_by_def Let_def)

subsection \<open>The items are kept\<close>

text \<open>
  Whatever the comparison, the sift loops only move items: the hole at \<open>pos\<close> travels
  and the held item lands where it stops. So a push adds its item and a pop removes the
  item it returns, as multisets.
\<close>

lemma mset_siftdown_loop_by:
  "pos < length h \<Longrightarrow> add_mset (h ! pos) (mset (siftdown_loop_by lt h s pos x)) = add_mset x (mset h)"
proof (induction lt h s pos x rule: siftdown_loop_by.induct)
  case (1 lt h s pos x)
  let ?pp = "(pos - 1) div 2"
  show ?case
  proof (cases "s < pos \<and> lt x (h ! ?pp)")
    case True
    let ?h2 = "h[pos := h ! ?pp]" and ?L = "mset (siftdown_loop_by lt (h[pos := h ! ?pp]) s ?pp x)"
    have pp: "?pp < pos" using True by auto
    then have "?pp < length ?h2" using "1.prems" by simp
    with "1.IH" [OF conjunct1 [OF True] refl refl conjunct2 [OF True]] pp
    have IH: "add_mset (h ! ?pp) ?L = add_mset x (mset ?h2)" by simp
    have eq: "add_mset (h ! pos) (mset ?h2) = add_mset (h ! ?pp) (mset h)"
      using "1.prems" by (simp add: mset_update)
    have run: "siftdown_loop_by lt h s pos x = siftdown_loop_by lt ?h2 s ?pp x"
      using True by (simp add: siftdown_loop_by.simps [of lt h s pos] Let_def)
    have "add_mset (h ! ?pp) (add_mset (h ! pos) ?L) = add_mset (h ! pos) (add_mset (h ! ?pp) ?L)"
      by (rule add_mset_commute)
    also have "\<dots> = add_mset (h ! pos) (add_mset x (mset ?h2))" by (simp only: IH)
    also have "\<dots> = add_mset x (add_mset (h ! pos) (mset ?h2))" by (rule add_mset_commute)
    also have "\<dots> = add_mset x (add_mset (h ! ?pp) (mset h))" by (simp only: eq)
    also have "\<dots> = add_mset (h ! ?pp) (add_mset x (mset h))" by (rule add_mset_commute)
    finally show ?thesis using run by simp
  next
    case False
    then have "siftdown_loop_by lt h s pos x = h[pos := x]"
      by (auto simp: siftdown_loop_by.simps [of lt h s pos] Let_def)
    with "1.prems" show ?thesis by (simp add: mset_update)
  qed
qed

lemma mset_siftup_loop_by:
  "siftup_loop_by lt h e pos = (h', p) \<Longrightarrow> pos < length h \<Longrightarrow> e \<le> length h \<Longrightarrow>
   p < length h' \<and> add_mset (h ! pos) (mset h') = add_mset (h' ! p) (mset h)"
proof (induction lt h e pos arbitrary: h' p rule: siftup_loop_by.induct)
  case (1 lt h e pos)
  let ?c = "2 * pos + 1"
  show ?case
  proof (cases "?c < e")
    case True
    define c' where "c' = (if ?c + 1 < e \<and> \<not> lt (h ! ?c) (h ! (?c + 1)) then ?c + 1 else ?c)"
    let ?h2 = "h[pos := h ! c']"
    have c': "c' < e" "pos < c'" using True by (auto simp: c'_def)
    have run: "siftup_loop_by lt h e pos = siftup_loop_by lt ?h2 e c'"
      using True by (simp add: siftup_loop_by.simps [of lt h e pos] c'_def Let_def)
    have IH: "p < length h' \<and> add_mset (?h2 ! c') (mset h') = add_mset (h' ! p) (mset ?h2)"
      using "1.IH" [OF refl True refl c'_def] "1.prems" run c' by simp
    have h2c: "?h2 ! c' = h ! c'" using c' by simp
    have eq: "add_mset (h ! pos) (mset ?h2) = add_mset (h ! c') (mset h)"
      using "1.prems" by (simp add: mset_update)
    have "add_mset (h ! c') (add_mset (h ! pos) (mset h')) = add_mset (h ! pos) (add_mset (?h2 ! c') (mset h'))"
      by (simp only: h2c add_mset_commute)
    also have "\<dots> = add_mset (h ! pos) (add_mset (h' ! p) (mset ?h2))" using IH by (simp only:)
    also have "\<dots> = add_mset (h' ! p) (add_mset (h ! pos) (mset ?h2))" by (rule add_mset_commute)
    also have "\<dots> = add_mset (h' ! p) (add_mset (h ! c') (mset h))" by (simp only: eq)
    also have "\<dots> = add_mset (h ! c') (add_mset (h' ! p) (mset h))" by (rule add_mset_commute)
    finally show ?thesis using IH by simp
  next
    case False
    with "1.prems" show ?thesis by (simp add: siftup_loop_by.simps [of lt h e pos])
  qed
qed

lemma mset_siftup_by: "pos < length h \<Longrightarrow> mset (siftup_by lt h pos) = mset h"
proof -
  assume pos: "pos < length h"
  obtain h' p where sl: "siftup_loop_by lt h (length h) pos = (h', p)" by (metis prod.exhaust)
  from mset_siftup_loop_by [OF sl pos order_refl]
  have p: "p < length h'" and m: "add_mset (h ! pos) (mset h') = add_mset (h' ! p) (mset h)" by auto
  let ?h3 = "h'[p := h ! pos]"
  obtain M where M: "mset h' = add_mset (h' ! p) M" using p by (metis in_multiset_in_set insert_DiffM nth_mem)
  have "add_mset (h' ! p) (add_mset (h ! pos) M) = add_mset (h ! pos) (add_mset (h' ! p) M)"
    by (rule add_mset_commute)
  also have "\<dots> = add_mset (h' ! p) (mset h)" using m by (simp only: M)
  finally have "add_mset (h' ! p) (add_mset (h ! pos) M) = add_mset (h' ! p) (mset h)" .
  then have hM: "add_mset (h ! pos) M = mset h" by simp
  have "p < length ?h3" using p by simp
  from mset_siftdown_loop_by [OF this, of lt pos "?h3 ! p"]
  have "mset (siftdown_by lt ?h3 pos p) = mset ?h3" by (simp add: siftdown_by_def)
  also have "mset ?h3 = mset h" using p M hM by (simp add: mset_update)
  finally show ?thesis using sl by (simp add: siftup_by_def)
qed

lemma mset_heappush_by: "mset (heappush_by lt h x) = add_mset x (mset h)"
proof -
  have "length h < length (h @ [x])" by simp
  from mset_siftdown_loop_by [OF this, of lt 0 x] show ?thesis
    by (simp add: heappush_by_def siftdown_by_def)
qed

lemma mset_heappop_by: "heappop_by lt h = Some (x, h') \<Longrightarrow> mset h = add_mset x (mset h')"
proof (cases h rule: rev_cases)
  case (snoc ys y)
  assume pop: "heappop_by lt h = Some (x, h')"
  show ?thesis
  proof (cases ys)
    case Nil
    with snoc pop show ?thesis by (simp add: heappop_by_def)
  next
    case (Cons z zs)
    then have "0 < length (ys[0 := y])" by simp
    from mset_siftup_by [OF this, of lt] snoc Cons pop show ?thesis
      by (auto simp: heappop_by_def mset_update)
  qed
qed (simp add: heappop_by_def)

end
