(* ===== verification/FloatSearch.thy ===== *)
theory FloatSearch
  imports DijkstraHeap HeapBy PyFloat
begin

text \<open>
  The search of \<^verbatim>\<open>src/ShortestRoute.py\<close> (lines 104--118) over Python floats, the values
  \<^verbatim>\<open>float(dist)\<close> produces at line 41 (\<open>PyFloat.pyfloat\<close>: a finite value, plus or
  minus infinity, or NaN). \<open>py_eq\<close>, \<open>py_less\<close> and \<open>py_add\<close> are Python's \<^verbatim>\<open>==\<close>,
  \<^verbatim>\<open><\<close> and \<^verbatim>\<open>+\<close> on floats: every comparison with NaN is false, \<open>inf + -inf\<close> is NaN.
  \<open>entry_less\<close> is Python's \<^verbatim>\<open><\<close> on the heap's tuples \<open>(dist, node, path)\<close>: the first
  components that are not \<^verbatim>\<open>==\<close> decide. The start entry's \<^verbatim>\<open>0\<close> is an \<^verbatim>\<open>int\<close>; it
  compares and adds as the float zero. CPython allocates a fresh float for every
  \<^verbatim>\<open>dist + weight\<close>, so two entries never share a NaN object and the identity shortcut
  of tuple comparison never applies. \<open>dijkstra_py\<close> runs the loop over the heap of
  \<open>HeapBy\<close> with \<open>entry_less\<close>. The lemmas show that it never fails, whatever the
  weights, and that the path it returns is empty exactly when the target is unreachable:
  a fact that does not depend on how distances are added or compared, and so holds of the
  program's rounding floats too.
\<close>

fun py_eq :: "pyfloat \<Rightarrow> pyfloat \<Rightarrow> bool" where
  "py_eq (PyNum a) (PyNum b) = (a = b)"
| "py_eq (PyInf s) (PyInf t) = (s = t)"
| "py_eq _ _ = False"

fun py_less :: "pyfloat \<Rightarrow> pyfloat \<Rightarrow> bool" where
  "py_less (PyNum a) (PyNum b) = (a < b)"
| "py_less (PyNum a) (PyInf neg) = (\<not> neg)"
| "py_less (PyInf neg) (PyNum b) = neg"
| "py_less (PyInf s) (PyInf t) = (s \<and> \<not> t)"
| "py_less _ _ = False"

fun py_add :: "pyfloat \<Rightarrow> pyfloat \<Rightarrow> pyfloat" where
  "py_add (PyNum a) (PyNum b) = PyNum (a + b)"
| "py_add (PyNum a) (PyInf s) = PyInf s"
| "py_add (PyInf s) (PyNum b) = PyInf s"
| "py_add (PyInf s) (PyInf t) = (if s = t then PyInf s else PyNaN)"
| "py_add _ _ = PyNaN"

definition entry_less :: "('n::linorder, pyfloat) entry \<Rightarrow> ('n, pyfloat) entry \<Rightarrow> bool" where
  "entry_less x y =
     (case x of (d1, n1, p1) \<Rightarrow> case y of (d2, n2, p2) \<Rightarrow>
        if \<not> py_eq d1 d2 then py_less d1 d2 else if n1 \<noteq> n2 then n1 < n2 else p1 < p2)"

fun push_neighbors_py ::
  "'n::linorder set \<Rightarrow> pyfloat \<Rightarrow> 'n list \<Rightarrow> ('n \<times> pyfloat) list \<Rightarrow> ('n, pyfloat) entry list
   \<Rightarrow> ('n, pyfloat) entry list"
where
  "push_neighbors_py visited d path [] heap = heap"
| "push_neighbors_py visited d path ((neighbor, weight) # es) heap =
     push_neighbors_py visited d path es
       (if neighbor \<notin> visited then heappush_by entry_less heap (py_add d weight, neighbor, path) else heap)"

lemma length_push_neighbors_py:
  "length (push_neighbors_py V d p es h) \<le> length h + length es"
  by (induction V d p es h rule: push_neighbors_py.induct) (auto intro: le_SucI)

lemma loop_measure_pop_py:
  "heappop_by lt heap = Some (x, heap') \<Longrightarrow> loop_measure g heap' V < loop_measure g heap V"
  by (auto simp: loop_measure_def dest!: length_heappop_by)

lemma loop_measure_push_py:
  assumes "heappop_by entry_less heap = Some (x, heap')" "x = (d, n, p)" "n \<notin> V"
  shows "loop_measure g (push_neighbors_py (insert n V) d q (adj g n) heap') (insert n V) < loop_measure g heap V"
  using length_heappop_by [OF assms(1)] length_push_neighbors_py [of "insert n V" d q "adj g n" heap']
    assms(3) by (auto intro!: loop_measure_visit)

text \<open>Lines 105--118 with float distances; \<^verbatim>\<open>float('inf')\<close> is \<open>PyInf False\<close>.\<close>

function dijkstra_loop_py ::
  "('n::linorder, pyfloat) graph \<Rightarrow> 'n \<Rightarrow> ('n, pyfloat) entry list \<Rightarrow> 'n set \<Rightarrow> (pyfloat \<times> 'n list) option"
where
  "dijkstra_loop_py g target heap visited =
     (if heap = [] then Some (PyInf False, [])
      else case heappop_by entry_less heap of
        None \<Rightarrow> None
      | Some ((d, node, path), heap') \<Rightarrow>
          if node \<in> visited then dijkstra_loop_py g target heap' visited
          else (let visited' = insert node visited; path' = path @ [node] in
                if node = target then Some (d, path')
                else dijkstra_loop_py g target (push_neighbors_py visited' d path' (adj g node) heap') visited'))"
  by pat_completeness auto
termination
  by (relation "measure (\<lambda>(g, e, heap, visited). loop_measure g heap visited)")
    (auto intro: loop_measure_pop_py loop_measure_push_py)

declare dijkstra_loop_py.simps [simp del]

definition dijkstra_py :: "('n::linorder, pyfloat) graph \<Rightarrow> 'n \<Rightarrow> 'n \<Rightarrow> (pyfloat \<times> 'n list) option" where
  "dijkstra_py g start target = dijkstra_loop_py g target [(PyNum 0, start, [])] {}"

lemmas float_search_eval [eval_simps] = entry_less_def dijkstra_loop_py.simps dijkstra_py_def

subsection \<open>The search never fails\<close>

lemma dijkstra_loop_py_Some: "\<exists>r. dijkstra_loop_py g t H V = Some r"
proof (induction g t H V rule: dijkstra_loop_py.induct)
  case (1 g t H V)
  show ?case
  proof (cases "H = []")
    case False
    then obtain d n p H' where pop: "heappop_by entry_less H = Some ((d, n, p), H')"
      by (cases "heappop_by entry_less H") auto
    consider (skipped) "n \<in> V" | (target) "n \<notin> V" "n = t" | (pushed) "n \<notin> V" "n \<noteq> t"
      by blast
    then show ?thesis
    proof cases
      case skipped
      with "1.IH"(1) [OF False pop refl refl refl skipped] False pop show ?thesis
        by (simp add: dijkstra_loop_py.simps [of g t H V])
    next
      case pushed
      with "1.IH"(2) [OF False pop refl refl refl pushed(1) refl refl pushed(2)] False pop show ?thesis
        by (simp add: dijkstra_loop_py.simps [of g t H V] Let_def)
    qed (simp add: False pop dijkstra_loop_py.simps [of g t H V])
  qed (simp add: dijkstra_loop_py.simps)
qed

subsection \<open>The returned path decides connectivity\<close>

text \<open>
  \<open>linked g u v\<close>: some road leads from \<open>u\<close> to \<open>v\<close>; \<open>road_path g s ns\<close>: \<open>ns\<close> is a
  sequence of locations from \<open>s\<close> along roads. The invariant \<open>search_inv\<close> of the loop
  does not mention distances, so it holds whatever \<^verbatim>\<open>+\<close> and \<^verbatim>\<open><\<close> compute and in
  whatever order \<^verbatim>\<open>heappop\<close> returns the entries: the start is visited or queued, the
  visited set is closed under roads up to the queued nodes, and every queued entry
  carries a path without repetition, along roads from the start, through visited nodes.
\<close>

definition linked :: "('n, 'w) graph \<Rightarrow> 'n \<Rightarrow> 'n \<Rightarrow> bool" where
  "linked g u v \<longleftrightarrow> v \<in> fst ` set (adj g u)"

inductive road_path :: "('n, 'w) graph \<Rightarrow> 'n \<Rightarrow> 'n list \<Rightarrow> bool" for g s where
  start: "road_path g s [s]"
| step: "road_path g s ns \<Longrightarrow> linked g (last ns) v \<Longrightarrow> road_path g s (ns @ [v])"

definition search_inv :: "('n, 'w) graph \<Rightarrow> 'n \<Rightarrow> ('n, 'w) entry list \<Rightarrow> 'n set \<Rightarrow> bool" where
  "search_inv g s H V \<longleftrightarrow>
     (s \<in> V \<or> s \<in> fst ` snd ` set H) \<and>
     (\<forall>u \<in> V. \<forall>v. linked g u v \<longrightarrow> v \<in> V \<or> v \<in> fst ` snd ` set H) \<and>
     (\<forall>(d, n, p) \<in> set H. road_path g s (p @ [n]) \<and> distinct p \<and> set p \<subseteq> V)"

lemma road_path_reach: "road_path g s ns \<Longrightarrow> (linked g)\<^sup>*\<^sup>* s (last ns)"
  by (induction rule: road_path.induct) auto

lemma closed_reach:
  "(linked g)\<^sup>*\<^sup>* s t \<Longrightarrow> s \<in> V \<Longrightarrow> \<forall>u \<in> V. \<forall>v. linked g u v \<longrightarrow> v \<in> V \<Longrightarrow> t \<in> V"
  by (induction rule: rtranclp_induct) auto

lemma set_push_neighbors_py:
  "set (push_neighbors_py V d p es h) = set h \<union> {(py_add d w, v, p) | v w. (v, w) \<in> set es \<and> v \<notin> V}"
proof (induction V d p es h rule: push_neighbors_py.induct)
  case (2 V d p neighbor weight es h)
  then show ?case by (auto simp: mset_heappush_by [THEN arg_cong [where f = set_mset], simplified])
qed simp

lemma set_heappop_by: "heappop_by lt H = Some (x, H') \<Longrightarrow> set H = insert x (set H')"
  using mset_heappop_by [THEN arg_cong [where f = set_mset]] by simp

lemma search_inv_init: "search_inv g s [(d, s, [])] {}"
  by (simp add: search_inv_def road_path.start)

lemma search_inv_skip:
  assumes "search_inv g s H V" "set H = insert (d, n, q) (set H')" "n \<in> V"
  shows "search_inv g s H' V"
  using assms unfolding search_inv_def by (auto 0 3)

lemma search_inv_visit:
  assumes inv: "search_inv g s H V" and H: "set H = insert (d, n, q) (set H')" and n: "n \<notin> V"
  shows "search_inv g s (push_neighbors_py (insert n V) d (q @ [n]) (adj g n) H') (insert n V)"
proof -
  let ?H2 = "push_neighbors_py (insert n V) d (q @ [n]) (adj g n) H'"
  have S: "set ?H2 = set H' \<union> {(py_add d w, v, q @ [n]) | v w. (v, w) \<in> set (adj g n) \<and> v \<notin> insert n V}"
    by (rule set_push_neighbors_py)
  have e: "road_path g s (q @ [n]) \<and> distinct q \<and> set q \<subseteq> V"
    using inv H unfolding search_inv_def by auto
  have s: "s \<in> insert n V \<or> s \<in> fst ` snd ` set ?H2"
    using inv H unfolding search_inv_def S by auto
  have f: "v \<in> insert n V \<or> v \<in> fst ` snd ` set ?H2" if "u \<in> insert n V" "linked g u v" for u v
  proof (cases "u = n")
    case True
    with that obtain w where "(v, w) \<in> set (adj g n)" by (auto simp: linked_def)
    then show ?thesis unfolding S by (cases "v \<in> insert n V") force+
  next
    case False
    with that inv have "v \<in> V \<or> v \<in> fst ` snd ` set H" unfolding search_inv_def by auto
    with H show ?thesis unfolding S by auto
  qed
  have p: "road_path g s (p @ [v]) \<and> distinct p \<and> set p \<subseteq> insert n V" if "(d', v, p) \<in> set ?H2" for d' v p
  proof -
    from that consider "(d', v, p) \<in> set H'"
      | w where "p = q @ [n]" "(v, w) \<in> set (adj g n)" "v \<notin> insert n V"
      unfolding S by blast
    then show ?thesis
    proof cases
      case 1
      with inv H show ?thesis unfolding search_inv_def by auto
    next
      case (2 w)
      then have "linked g (last (q @ [n])) v" by (force simp: linked_def)
      with e have "road_path g s ((q @ [n]) @ [v])" by (blast intro: road_path.step)
      with e n 2 show ?thesis by auto
    qed
  qed
  from s f p show ?thesis unfolding search_inv_def by blast
qed

lemma dijkstra_loop_py_empty:
  "dijkstra_loop_py g t H V = Some (d, []) \<Longrightarrow> d = PyInf False"
proof (induction g t H V rule: dijkstra_loop_py.induct)
  case (1 g t H V)
  show ?case
  proof (cases "H = []")
    case False
    then obtain d0 n q H' where pop: "heappop_by entry_less H = Some ((d0, n, q), H')"
      by (cases "heappop_by entry_less H") auto
    consider (skipped) "n \<in> V" | (target) "n \<notin> V" "n = t" | (pushed) "n \<notin> V" "n \<noteq> t"
      by blast
    then show ?thesis
    proof cases
      case skipped
      with "1.IH"(1) [OF False pop refl refl refl skipped] False pop "1.prems" show ?thesis
        by (simp add: dijkstra_loop_py.simps [of g t H V])
    next
      case pushed
      with "1.IH"(2) [OF False pop refl refl refl pushed(1) refl refl pushed(2)] False pop "1.prems" show ?thesis
        by (simp add: dijkstra_loop_py.simps [of g t H V] Let_def)
    qed (use False pop "1.prems" in \<open>simp add: dijkstra_loop_py.simps [of g t H V]\<close>)
  qed (use "1.prems" in \<open>simp add: dijkstra_loop_py.simps\<close>)
qed

lemma loop_py_paths:
  "search_inv g s H V \<Longrightarrow> t \<notin> V \<Longrightarrow> dijkstra_loop_py g t H V = Some (d, p) \<Longrightarrow>
   (p = [] \<longleftrightarrow> \<not> (linked g)\<^sup>*\<^sup>* s t) \<and> (p \<noteq> [] \<longrightarrow> road_path g s p \<and> last p = t \<and> distinct p)"
proof (induction g t H V arbitrary: d p rule: dijkstra_loop_py.induct)
  case (1 g t H V)
  show ?case
  proof (cases "H = []")
    case True
    with "1.prems" have p: "p = []" and sV: "s \<in> V" and cl: "\<forall>u \<in> V. \<forall>v. linked g u v \<longrightarrow> v \<in> V"
      by (auto simp: dijkstra_loop_py.simps search_inv_def)
    with closed_reach [of g s t V] "1.prems"(2) show ?thesis by blast
  next
    case False
    then obtain d0 n q H' where pop: "heappop_by entry_less H = Some ((d0, n, q), H')"
      by (cases "heappop_by entry_less H") auto
    note H = set_heappop_by [OF pop]
    consider (skipped) "n \<in> V" | (target) "n \<notin> V" "n = t" | (pushed) "n \<notin> V" "n \<noteq> t"
      by blast
    then show ?thesis
    proof cases
      case skipped
      with False pop "1.prems"(3) have "dijkstra_loop_py g t H' V = Some (d, p)"
        by (simp add: dijkstra_loop_py.simps [of g t H V])
      from "1.IH"(1) [OF False pop refl refl refl skipped search_inv_skip [OF "1.prems"(1) H skipped]
          "1.prems"(2) this]
      show ?thesis .
    next
      case target
      with False pop "1.prems"(3) have p: "p = q @ [t]"
        by (simp add: dijkstra_loop_py.simps [of g t H V])
      from "1.prems"(1) H have "road_path g s (q @ [n]) \<and> distinct q \<and> set q \<subseteq> V"
        unfolding search_inv_def by auto
      with target p road_path_reach [of g s "q @ [t]"] show ?thesis by auto
    next
      case pushed
      let ?V = "insert n V"
      from False pop "1.prems"(3) pushed have
        "dijkstra_loop_py g t (push_neighbors_py ?V d0 (q @ [n]) (adj g n) H') ?V = Some (d, p)"
        by (simp add: dijkstra_loop_py.simps [of g t H V] Let_def)
      from "1.IH"(2) [OF False pop refl refl refl pushed(1) refl refl pushed(2)
          search_inv_visit [OF "1.prems"(1) H pushed(1)] _ this] "1.prems"(2) pushed(2)
      show ?thesis by simp
    qed
  qed
qed

text \<open>
  C4. The path the search returns, not its distance, tells whether the target is
  reachable: for every store, whatever its distances (infinite and NaN ones included)
  and in whatever order the heap returns entries, the returned path is empty exactly
  when no sequence of roads leads from the source to the target, and a non-empty path
  is such a sequence, ending at the target, without repeated location.
\<close>

theorem dijkstra_py_path_connectivity:
  "dijkstra_py g s t = Some (d, p) \<Longrightarrow>
   (p = [] \<longleftrightarrow> \<not> (linked g)\<^sup>*\<^sup>* s t) \<and> (p \<noteq> [] \<longrightarrow> road_path g s p \<and> last p = t \<and> distinct p)"
  using loop_py_paths [where H = "[(PyNum 0, s, [])]" and V = "{}", OF search_inv_init] by (simp add: dijkstra_py_def)

theorem dijkstra_py_path_connectivity_witness:
  "dijkstra_py [(''A'', [(''B'', PyInf False)]), (''B'', [(''A'', PyInf False)])] ''A'' ''B'' =
     Some (PyInf False, [''A'', ''B'']) \<and>
   (linked [(''A'', [(''B'', PyInf False)]), (''B'', [(''A'', PyInf False)])])\<^sup>*\<^sup>* ''A'' ''B''"
proof -
  have r: "dijkstra_py [(''A'', [(''B'', PyInf False)]), (''B'', [(''A'', PyInf False)])] ''A'' ''B'' =
     Some (PyInf False, [''A'', ''B''])"
    by (simp add: eval_simps)
  from dijkstra_py_path_connectivity [OF r] r show ?thesis by simp
qed

end
