(* ===== verification/AppFloat.thy ===== *)
theory AppFloat
  imports App FloatSearch
begin

text \<open>
  The application with the weights Python really stores: \<^verbatim>\<open>float(dist)\<close> at line 41
  returns a finite value, an infinity or NaN (\<open>PyFloat.pyfloat\<close>), and the handler of
  lines 36--55 stores every one of them. The session state is \<open>pyfloat app_state\<close>;
  \<open>submit_road_py\<close> is the form handler without the restriction to finite distances of
  \<open>App.submit_road\<close>, \<open>compute_path_py\<close> the compute handler of lines 120--147 over
  \<open>FloatSearch.dijkstra_py\<close>, with the test \<^verbatim>\<open>distance == float('inf')\<close> of line 121
  as \<open>py_eq\<close>, and \<open>None\<close> for an uncaught IndexError of \<^verbatim>\<open>heappop\<close>. \<open>app_step_py\<close>
  is one rerun, as \<open>App.app_step\<close>, and \<open>reachable_py\<close> the states of a session. The
  lemmas show that every session keeps the store invariant with every stored weight a
  value of \<^verbatim>\<open>float\<close>, that the handler never raises, and what the "No path exists"
  message and a reported path mean for the real program.
\<close>

definition submit_road_py ::
  "pyfloat app_state \<Rightarrow> string \<Rightarrow> string \<Rightarrow> string \<Rightarrow> pyfloat road_msg \<times> pyfloat app_state"
where
  "submit_road_py st src dst dist_text =
     (if src = [] \<or> dst = [] \<or> dist_text = [] then (AllFieldsRequired, st)
      else
        (case parse_float dist_text of
          None \<Rightarrow> (DistanceNotNumber, st)
        | Some d \<Rightarrow>
            (let st' = st\<lparr>locations_set := insert dst (insert src (locations_set st))\<rparr> in
             case add_road_edges (graph st) src dst d of
               Inl g \<Rightarrow> (Uncaught KeyError, st'\<lparr>graph := g\<rparr>)
             | Inr g \<Rightarrow> (RoadAdded src dst d, st'\<lparr>graph := g\<rparr>))))"

definition compute_path_py :: "pyfloat app_state \<Rightarrow> string \<Rightarrow> string \<Rightarrow> pyfloat path_result option" where
  "compute_path_py st source dest =
     (case dijkstra_py (graph st) source dest of
       None \<Rightarrow> None
     | Some (distance, path) \<Rightarrow>
         Some (if py_eq distance (PyInf False) then NoPathExists source dest
               else ShortestPath distance path (edge_colors path (nx_edges (nx_graph (graph st))))))"

inductive app_step_py ::
  "pyfloat app_state \<Rightarrow> ui_event \<Rightarrow> pyfloat app_state \<Rightarrow> pyfloat app_output list \<Rightarrow> bool"
where
  submit: "submit_road_py st src dst dist_text = (msg, st') \<Longrightarrow>
     app_step_py st (SubmitRoad src dst dist_text) st' (RoadOutput msg # shown st')"
| visualize: "app_step_py st ClickVisualize (st\<lparr>visualize := True\<rparr>) (shown (st\<lparr>visualize := True\<rparr>))"
| compute: "locations_set st \<noteq> {} \<Longrightarrow>
     source \<in> set (sorted_list_of_set (locations_set st)) \<Longrightarrow>
     dest \<in> set (sorted_list_of_set (locations_set st)) \<Longrightarrow>
     compute_path_py st source dest = Some r \<Longrightarrow>
     app_step_py st (ComputeShortestPath source dest) st (shown st @ [PathOutput r])"
| rerun: "app_step_py st Rerun st (shown st)"

inductive reachable_py :: "pyfloat app_state \<Rightarrow> bool" where
  init: "reachable_py init_state"
| step: "reachable_py st \<Longrightarrow> app_step_py st ev st' out \<Longrightarrow> reachable_py st'"

lemmas app_float_eval [eval_simps] = submit_road_py_def compute_path_py_def

subsection \<open>Sessions of the program\<close>

lemma reachable_py_submit:
  "reachable_py st \<Longrightarrow> reachable_py (snd (submit_road_py st src dst dist_text))"
proof -
  assume r: "reachable_py st"
  have "app_step_py st (SubmitRoad src dst dist_text) (snd (submit_road_py st src dst dist_text))
          (RoadOutput (fst (submit_road_py st src dst dist_text)) # shown (snd (submit_road_py st src dst dist_text)))"
    by (rule app_step_py.submit) simp
  with r show ?thesis by (rule reachable_py.step)
qed

lemma submit_road_py_cases:
  assumes eq: "submit_road_py st src dst dist_text = (msg, st')"
  shows "st' = st \<or>
    (\<exists>d g. parse_float dist_text = Some d \<and> msg = RoadAdded src dst d \<and> add_road_edges (graph st) src dst d = Inr g \<and>
       st' = st\<lparr>locations_set := insert dst (insert src (locations_set st)), graph := g\<rparr>)"
proof (cases "src = [] \<or> dst = [] \<or> dist_text = [] \<or> parse_float dist_text = None")
  case False
  then obtain d where d: "parse_float dist_text = Some d" by auto
  obtain g where g: "add_road_edges (graph st) src dst d = Inr g"
    using add_road_edges_Inr by metis
  with False d eq show ?thesis by (auto simp: submit_road_py_def Let_def)
qed (use eq in \<open>auto simp: submit_road_py_def split: if_splits\<close>)

lemma compute_path_py_Some: "\<exists>r. compute_path_py st s t = Some r"
  using dijkstra_loop_py_Some [of "graph st" t "[(PyNum 0, s, [])]" "{}"]
  by (auto simp: compute_path_py_def dijkstra_py_def)

subsection \<open>Properties of the program's sessions\<close>

text \<open>
  C12. Type of the stored data: in every state of a session of the program the store
  satisfies the invariant of the rational model (distinct keys equal to the registered
  locations, symmetric roads), and every stored distance is a value \<^verbatim>\<open>float\<close> returns
  for some text: a finite decimal, an infinity or NaN.
\<close>

theorem session_weights_typed:
  "reachable_py st \<Longrightarrow>
   app_inv st \<and> (\<forall>u v w. (v, w) \<in> set (adj (graph st) u) \<longrightarrow> (\<exists>txt. parse_float txt = Some w))"
proof (induction rule: reachable_py.induct)
  case init
  show ?case using app_inv_init by (simp add: init_state_def adj_Nil)
next
  case (step st ev st' out)
  from step.hyps(2) step.IH show ?case
  proof (induction rule: app_step_py.induct)
    case (submit st src dst dist_text msg st')
    from submit_road_py_cases [OF submit.hyps] show ?case
    proof
      assume "st' = st"
      with submit.prems show ?thesis by simp
    next
      assume "\<exists>d g. parse_float dist_text = Some d \<and> msg = RoadAdded src dst d \<and>
        add_road_edges (graph st) src dst d = Inr g \<and>
        st' = st\<lparr>locations_set := insert dst (insert src (locations_set st)), graph := g\<rparr>"
      then obtain d g where d: "parse_float dist_text = Some d" and g: "add_road_edges (graph st) src dst d = Inr g"
        and st': "st' = st\<lparr>locations_set := insert dst (insert src (locations_set st)), graph := g\<rparr>" by blast
      have "app_inv st'" using submit.prems g by (simp add: st' app_inv_add_road)
      moreover have "\<exists>txt. parse_float txt = Some w" if "(v, w) \<in> set (adj (graph st') u)" for u v w
        using that submit.prems d add_road_edges_result [OF g] by (auto simp: st' split: if_splits)
      ultimately show ?thesis by blast
    qed
  next
    case (visualize st)
    then show ?case by (simp add: app_inv_def)
  qed simp_all
qed

theorem session_weights_typed_witness:
  "app_inv (snd (submit_road_py init_state ''A'' ''B'' ''nan'')) \<and>
   (''B'', PyNaN) \<in> set (adj (graph (snd (submit_road_py init_state ''A'' ''B'' ''nan''))) ''A'')"
proof -
  have r: "reachable_py (snd (submit_road_py init_state ''A'' ''B'' ''nan''))"
    by (rule reachable_py_submit [OF reachable_py.init])
  have "(''B'', PyNaN) \<in> set (adj (graph (snd (submit_road_py init_state ''A'' ''B'' ''nan''))) ''A'')"
    by (simp add: eval_simps add_road_edges_def add_key_def)
  with session_weights_typed [OF r] show ?thesis by blast
qed

text \<open>
  C13. The compute handler never raises: whatever the stored distances, infinite and NaN
  ones included, the search's \<^verbatim>\<open>heappop\<close> is only called on a non-empty heap, and the
  handler produces a result for every source and destination.
\<close>

theorem compute_never_raises: "compute_path_py st source dest \<noteq> None"
  using compute_path_py_Some [of st source dest] by auto

text \<open>
  C5. What the compute handler reports is right in one direction: for every state of
  the program and every pair of locations, if no sequence of roads joins them the
  handler reports that no path exists, and a reported path is a sequence of roads from
  the source to the destination without repeated location. The converse fails: a route
  whose length is \<^verbatim>\<open>inf\<close> is reported as "No path exists" (see
  \<open>dijkstra_py_path_connectivity\<close>, whose path is the test the handler should use).
\<close>

theorem compute_path_py_sound:
  assumes "compute_path_py st s t = Some r"
  shows "(\<not> (linked (graph st))\<^sup>*\<^sup>* s t \<longrightarrow> r = NoPathExists s t) \<and>
         (\<forall>d p cs. r = ShortestPath d p cs \<longrightarrow> road_path (graph st) s p \<and> last p = t \<and> distinct p)"
proof -
  obtain d p where r: "dijkstra_py (graph st) s t = Some (d, p)"
    using dijkstra_loop_py_Some [of "graph st" t "[(PyNum 0, s, [])]" "{}"] by (auto simp: dijkstra_py_def)
  have paths: "(p = [] \<longleftrightarrow> \<not> (linked (graph st))\<^sup>*\<^sup>* s t) \<and>
      (p \<noteq> [] \<longrightarrow> road_path (graph st) s p \<and> last p = t \<and> distinct p)"
    using loop_py_paths [where g = "graph st" and s = s and t = t and H = "[(PyNum 0, s, [])]" and V = "{}", OF search_inv_init] r by (simp add: dijkstra_py_def)
  have "p = [] \<Longrightarrow> d = PyInf False"
    using r dijkstra_loop_py_empty [of "graph st" t "[(PyNum 0, s, [])]" "{}" d]
    by (simp add: dijkstra_py_def)
  with assms r paths show ?thesis
    by (auto simp: compute_path_py_def split: if_splits)
qed

theorem compute_path_py_sound_witness:
  "compute_path_py (snd (submit_road_py (snd (submit_road_py (snd (submit_road_py init_state ''A'' ''B'' ''1''))
     ''B'' ''C'' ''2'')) ''A'' ''C'' ''10'')) ''A'' ''C'' =
     Some (ShortestPath (PyNum 3) [''A'', ''B'', ''C''] [Red, Black, Red]) \<and>
   road_path (graph (snd (submit_road_py (snd (submit_road_py (snd (submit_road_py init_state ''A'' ''B'' ''1''))
     ''B'' ''C'' ''2'')) ''A'' ''C'' ''10''))) ''A'' [''A'', ''B'', ''C'']"
proof -
  have r: "compute_path_py (snd (submit_road_py (snd (submit_road_py (snd (submit_road_py init_state ''A'' ''B'' ''1''))
     ''B'' ''C'' ''2'')) ''A'' ''C'' ''10'')) ''A'' ''C'' =
     Some (ShortestPath (PyNum 3) [''A'', ''B'', ''C''] [Red, Black, Red])"
    by (simp add: eval_simps add_road_edges_def add_key_def)
  from compute_path_py_sound [OF r] r show ?thesis by simp
qed

end
