(* ===== verification/Spec2Isabelle.thy ===== *)
theory Spec2Isabelle
  imports App LoopBound DijkstraHeap ShortestRef Messages AppFloat
begin

text \<open>
  Verification of \<^verbatim>\<open>src/ShortestRoute.py\<close>, a Streamlit application that builds an
  undirected weighted road network from user input and computes shortest routes with
  Dijkstra's algorithm.

  \<^bold>\<open>The program.\<close> One script, rerun by Streamlit on every interaction, keeps three
  values in the session state (lines 17--26): the dictionary \<^verbatim>\<open>graph\<close> from a
  location to its list of \<open>(neighbour, distance)\<close> pairs, the set
  \<^verbatim>\<open>locations_set\<close> of every location ever named, and the flag \<^verbatim>\<open>visualize\<close>.
  The "Submit Road" form (lines 28--55) validates its three text fields, parses the
  distance with \<^verbatim>\<open>float\<close>, registers both locations and appends the road to the
  adjacency lists of both ends. The "Compute Shortest Path" button (lines 84--125) runs
  the local function \<^verbatim>\<open>dijkstra\<close> (lines 104--118), a lazy-deletion Dijkstra search
  over a \<^verbatim>\<open>heapq\<close> priority queue of \<open>(distance, node, path)\<close> tuples, and reports the
  distance and path or "No path exists". Lines 127--153 redraw the network with the
  edges of the path in red.

  \<^bold>\<open>Theories.\<close>
  \<^item> \<open>Prelude\<close>: the graph as an association list (a Python dictionary keeps insertion
    order), \<open>adj\<close> for \<^verbatim>\<open>graph.get(n, [])\<close>, the lexicographic orders under which
    Python compares the heap's tuples, shared lemmas and the \<open>adj_simps\<close> and
    \<open>eval_simps\<close> collections.
  \<^item> \<open>HeapQ\<close>: the contract of Python's \<^verbatim>\<open>heapq\<close> (a library, not repository code):
    push adds an element, pop removes a least one.
  \<^item> \<open>HeapArray\<close>: \<^verbatim>\<open>heapq\<close>'s array implementation, modelled from CPython's
    \<^verbatim>\<open>_siftdown\<close>, \<^verbatim>\<open>_siftup\<close>, \<^verbatim>\<open>heappush\<close> and \<^verbatim>\<open>heappop\<close>: \<open>siftdown_loop\<close>
    and \<open>siftup_loop\<close> as \<^theory_text>\<open>function\<close>s with measures, the heap property
    \<open>heap_inv\<close>, and that push and pop keep it and implement the multiset contract of
    \<open>HeapQ\<close> (pop returns the least element).
  \<^item> \<open>Dijkstra\<close>: \<open>push_neighbors\<close> (lines 115--117), \<open>dijkstra_loop\<close> (the
    \<^verbatim>\<open>while\<close> loop, lines 107--118) and \<open>dijkstra\<close> (lines 104--106); walks of a
    graph as an inductive predicate; the loop's proof rule \<open>loop_rule\<close>; the invariants
    \<open>heap_sound\<close> and \<open>frontier\<close>; soundness, optimality and completeness; the loop's
    states as the inductive relation \<open>loop_reach\<close>, with an invariant proved by rule
    induction; the ordering of distances \<open>dist\<close> as a \<open>linorder\<close> instance.
  \<^item> \<open>DijkstraHeap\<close>: the search run over the array heap (\<open>push_neighbors_arr\<close>,
    \<open>dijkstra_loop_arr\<close>, \<open>dijkstra_arr\<close>), the failing pop kept as \<open>None\<close>, and its
    refinement of \<open>dijkstra\<close>.
  \<^item> \<open>LoopBound\<close>: \<open>dijkstra_run\<close>, the loop instrumented with a pass counter, and the
    bound of the number of passes by one more than the number of adjacency entries.
  \<^item> \<open>ShortestRef\<close>: a queue-free reference, \<open>shortest_ref\<close>, the least length over the
    enumeration \<open>paths_from\<close> of paths without repeated nodes, and the equivalence of the
    search with it.
  \<^item> \<open>GraphStore\<close>: \<open>add_key\<close>, \<open>append_adj\<close> and \<open>add_road_edges\<close> (lines 45--51)
    with KeyError kept as a value; the symmetry invariant of the store.
  \<^item> \<open>PyFloat\<close>: \<^verbatim>\<open>float(dist)\<close> (line 41), a builtin modelled from its grammar:
    whitespace, sign, \<^verbatim>\<open>inf\<close>/\<^verbatim>\<open>infinity\<close>/\<^verbatim>\<open>nan\<close> in any case, decimal literals with
    fraction, exponent and underscores; ValueError as \<open>None\<close>.
  \<^item> \<open>Highlight\<close>: \<open>edge_color\<close> and \<open>edge_colors\<close> (lines 137--147), with
    \<^verbatim>\<open>path.index\<close> as \<open>index_of\<close>.
  \<^item> \<open>Drawing\<close>: the networkx graph \<open>nx_graph\<close> built at lines 70--73 and 129--132,
    \<^verbatim>\<open>G.edges()\<close> as \<open>nx_edges\<close> and the weight labels as \<open>nx_edge_labels\<close>,
    following networkx's insertion-ordered adjacency dictionaries; the drawn edges are
    exactly the connected pairs, and each label is the weight of the last adjacency
    entry joining its pair (\<open>road_entries\<close>, \<open>last_weight\<close>).
  \<^item> \<open>App\<close>: the session state as the record \<open>app_state\<close>; the form handler
    \<open>submit_road\<close> (lines 36--55) with its messages; the compute handler
    \<open>compute_path\<close> (lines 120--147); the listing and drawing \<open>shown\<close> (lines 57--80);
    one rerun per user event as the inductive relation \<open>app_step\<close>, whose compute rule
    takes source and destination from the select boxes over the sorted locations
    (lines 84--101); \<open>reachable\<close> states of a session and the invariant \<open>app_inv\<close>
    (distinct keys, keys equal to the registered locations, symmetric store).
  \<^item> \<open>HeapBy\<close>: the \<^verbatim>\<open>heapq\<close> code again with the comparison as a parameter, since
    Python's \<^verbatim>\<open><\<close> on tuples holding NaN is not a linear order; its operations never
    fail on a non-empty list and push and pop add and remove one item.
  \<^item> \<open>FloatSearch\<close>: Python's \<^verbatim>\<open>==\<close>, \<^verbatim>\<open><\<close> and \<^verbatim>\<open>+\<close> on floats with infinities
    and NaN (\<open>py_eq\<close>, \<open>py_less\<close>, \<open>py_add\<close>), tuple comparison \<open>entry_less\<close>, and the
    search over them, \<open>dijkstra_py\<close>; it never fails, and its path (not its distance)
    tells whether the target is reachable (\<open>linked\<close>, \<open>road_path\<close>, the invariant
    \<open>search_inv\<close>).
  \<^item> \<open>AppFloat\<close>: the session over the floats the program really stores:
    \<open>submit_road_py\<close> keeps every value \<^verbatim>\<open>float\<close> returns, \<open>compute_path_py\<close> tests
    \<^verbatim>\<open>distance == float('inf')\<close> with \<open>py_eq\<close>, \<open>app_step_py\<close> and \<open>reachable_py\<close>
    are the reruns and sessions.
  \<^item> \<open>Messages\<close>: the texts of lines 121--125 as lists of segments, with
    \<^verbatim>\<open>' \<rightarrow> '.join(path)\<close> as \<open>join arrow\<close>; reading a displayed path back.
  \<^item> This theory: properties across components: the reported path and its bound in
    the registered locations, and the highlighted path in the drawing.

  \<^bold>\<open>Results.\<close> The search returns a real route of the returned length
  (\<open>dijkstra_sound\<close>), a shortest one when distances are non-negative
  (\<open>dijkstra_optimal\<close>), and it equals the queue-free reference \<open>shortest_ref\<close>
  (\<open>dijkstra_equals_reference\<close>); run over \<^verbatim>\<open>heapq\<close>'s array it returns the same
  result (\<open>dijkstra_arr_refines\<close>), each step keeping the heap property and
  refining the multiset step (\<open>search_keeps_heap\<close>, \<open>search_heap_refines\<close>); the
  loop passes at most once per adjacency entry (\<open>dijkstra_iterations_bound\<close>). The
  store keeps every road at both ends and every reachable session satisfies the
  invariant (\<open>session_invariant\<close>); invalid input changes nothing. The highlighting
  marks exactly the edges of the path, and each drawn label is the last weight written
  for its pair. The displayed path determines the path when no name contains the arrow.
  Over Python floats, every stored distance is a \<^verbatim>\<open>float\<close> value and the invariant
  holds (\<open>session_weights_typed\<close>), the compute handler never raises
  (\<open>compute_never_raises\<close>), the search's path is empty exactly when the target is
  unreachable (\<open>dijkstra_py_path_connectivity\<close>), and the handler reports "No path
  exists" for every disconnected pair and only real routes otherwise
  (\<open>compute_path_py_sound\<close>). These float results do not use the arithmetic of
  distances, so rounding does not affect them.

  \<^bold>\<open>Termination.\<close> Every loop is a \<^theory_text>\<open>function\<close> with a proved termination
  argument; no fuel is needed. The search loop decreases the heap length plus twice the
  sum, over unvisited keys of the graph, of one more than their adjacency size: a
  skipped pop shrinks the heap, a visit removes a key's share, which exceeds the entries
  it pushes. \<open>dijkstra_iterations_bound\<close> bounds the number of passes by one more than
  the number of adjacency entries. The sift loops decrease the distance of the hole to
  the root (\<open>siftdown_loop\<close>) and to the end of the array (\<open>siftup_loop\<close>);
  \<open>paths_from\<close> decreases the number of nodes not yet on the path. The float search
  \<open>dijkstra_loop_py\<close> and the sift loops of \<open>HeapBy\<close> use the same measures, which do
  not depend on the comparison, so they terminate even when NaN makes it inconsistent.

  \<^bold>\<open>Weights.\<close> The engine is proved for any linearly ordered commutative group of
  weights; optimality assumes non-negative weights, the other results hold for any.
  In \<open>App\<close> the weights are exact rationals; \<open>AppFloat\<close> adds the two infinities
  and NaN that \<^verbatim>\<open>float\<close> also returns, with IEEE comparison and addition. Results about
  distance values (\<open>dijkstra_sound\<close>, \<open>dijkstra_optimal\<close>,
  \<open>dijkstra_equals_reference\<close>) are exact-arithmetic results: the program's doubles
  round, so its sums can differ from them in the last digits.

  \<^bold>\<open>Not modelled.\<close> Float rounding: finite distances are exact rationals, so
  \<^verbatim>\<open>float('0.1')\<close> is read as 1/10, \<^verbatim>\<open>dist + weight\<close> does not round (the program
  reports 0.6000000000000001 from A to D and 0.6 back over roads 0.1, 0.2, 0.3), and a
  literal or a sum beyond the largest double does not overflow to infinity. The
  identity shortcut of Python's tuple comparison is left out: CPython makes a fresh
  float for every \<^verbatim>\<open>dist + weight\<close>, so two heap entries never share a NaN. The digits
  Python prints for a float in the messages are not modelled (\<open>Num\<close> holds the
  value). Page configuration, widget rendering, the spring layout and matplotlib
  drawing (lines 6--15, 75--80, 134--135, 149--153) produce no state.
\<close>

section \<open>Routes in the road network of a session\<close>

lemma session_symmetric: "reachable st \<Longrightarrow> symmetric (graph st)"
  using reachable_app_inv by (simp add: app_inv_def)

lemma session_state_triangle:
  "reachable (snd (submit_road (snd (submit_road (snd (submit_road init_state ''A'' ''B'' ''1''))
     ''B'' ''C'' ''2'')) ''A'' ''C'' ''10''))"
  by (intro reachable_submit reachable.init)

lemma graph_triangle:
  "graph (snd (submit_road (snd (submit_road (snd (submit_road init_state ''A'' ''B'' ''1''))
     ''B'' ''C'' ''2'')) ''A'' ''C'' ''10'')) =
   [(''A'', [(''B'', 1), (''C'', 10)]), (''B'', [(''A'', 1), (''C'', 2)]), (''C'', [(''B'', 2), (''A'', 10)])]"
  by (simp add: eval_simps add_road_edges_def add_key_def)

lemma compute_triangle:
  "compute_path (snd (submit_road (snd (submit_road (snd (submit_road init_state ''A'' ''B'' ''1''))
     ''B'' ''C'' ''2'')) ''A'' ''C'' ''10'')) ''A'' ''C'' = ShortestPath 3 [''A'', ''B'', ''C''] [Red, Black, Red]"
  unfolding compute_path_def graph_triangle by (simp add: eval_simps)

lemma walk_keys:
  "walk g s p c \<Longrightarrow> s \<in> keys g \<Longrightarrow> symmetric g \<Longrightarrow> set p \<subseteq> keys g"
proof (induction rule: walk.induct)
  case (walk_step ns c x w)
  from symmetric_adj [OF walk_step.prems(2) walk_step.hyps(2)] have "adj g x \<noteq> []" by auto
  then have "x \<in> keys g" by (metis adj_not_key)
  with walk_step show ?case by simp
qed simp

lemma reachable_finite: "reachable st \<Longrightarrow> finite (locations_set st)"
  using session_symmetric reachable_app_inv [of st] by (auto simp: app_inv_def dest: sym)

inductive_cases compute_stepE: "app_step st (ComputeShortestPath s t) st' out"

lemma compute_output:
  assumes "app_step st (ComputeShortestPath s t) st' out" "PathOutput r \<in> set out" "finite (locations_set st)"
  shows "st' = st \<and> r = compute_path st s t \<and> s \<in> locations_set st \<and> t \<in> locations_set st"
  using assms by (cases rule: compute_stepE) (auto simp: shown_def split: if_splits)

lemma compute_found:
  "compute_path st s t = ShortestPath d p cs \<Longrightarrow> dijkstra (graph st) s t = (Fin d, p)"
  by (auto simp: compute_path_def split: dist.splits prod.splits)

lemma walk_nth_step:
  "walk g s p c \<Longrightarrow> Suc i < length p \<Longrightarrow> \<exists>w. (p ! Suc i, w) \<in> set (adj g (p ! i))"
proof (induction arbitrary: i rule: walk.induct)
  case (walk_step ns c x w)
  show ?case
  proof (cases "Suc i < length ns")
    case True
    with walk_step.IH show ?thesis by (simp add: nth_append)
  next
    case False
    with walk_step.prems have "Suc i = length ns" by simp
    moreover from walk_not_Nil [OF walk_step.hyps(1)] this have "ns ! i = last ns"
      by (metis diff_Suc_1 last_conv_nth)
    ultimately show ?thesis using walk_step.hyps(2) by (auto simp: nth_append)
  qed
qed simp

section \<open>Properties across components\<close>

text \<open>
  C18. What the "Compute Shortest Path" button draws: when a path is found, the colour
  list has one entry per edge of \<^verbatim>\<open>G.edges()\<close>, and an edge is red exactly when its two
  ends are consecutive on the reported path (specification, section 4.3).
\<close>

theorem highlight_marks_path:
  assumes "compute_path st s t = ShortestPath d p cs"
  shows "length cs = length (nx_edges (nx_graph (graph st))) \<and>
    (\<forall>i < length cs. cs ! i = Red \<longleftrightarrow>
       consecutive p (fst (nx_edges (nx_graph (graph st)) ! i)) (snd (nx_edges (nx_graph (graph st)) ! i)))"
proof -
  obtain r q where r: "dijkstra (graph st) s t = (r, q)" by (metis prod.exhaust)
  with assms obtain dd where "r = Fin dd" and pq: "q = p"
    and cs: "cs = edge_colors p (nx_edges (nx_graph (graph st)))"
    by (cases r) (auto simp: compute_path_def)
  with r have dp: "distinct p" using dijkstra_walk by blast
  have len: "length cs = length (nx_edges (nx_graph (graph st)))"
    by (simp add: cs edge_colors_def)
  with cs edge_colors_nth [OF dp] show ?thesis by auto
qed

theorem highlight_marks_path_witness:
  "nx_edges (nx_graph (graph (snd (submit_road (snd (submit_road (snd (submit_road init_state ''A'' ''B'' ''1''))
     ''B'' ''C'' ''2'')) ''A'' ''C'' ''10'')))) ! 1 = (''A'', ''C'') \<and>
   \<not> consecutive [''A'', ''B'', ''C''] ''A'' ''C''"
proof -
  let ?st = "snd (submit_road (snd (submit_road (snd (submit_road init_state ''A'' ''B'' ''1''))
     ''B'' ''C'' ''2'')) ''A'' ''C'' ''10'')"
  have c: "compute_path ?st ''A'' ''C'' = ShortestPath 3 [''A'', ''B'', ''C''] [Red, Black, Red]"
    by (simp add: eval_simps add_road_edges_def add_key_def)
  have e: "nx_edges (nx_graph (graph ?st)) = [(''A'', ''B''), (''A'', ''C''), (''B'', ''C'')]"
    unfolding graph_triangle by (simp add: eval_simps)
  from highlight_marks_path [OF c] e show ?thesis by auto
qed

text \<open>
  C16. A reported path is well formed: in every session, when the compute button reports
  a path, the path consists of registered locations and visits none twice, so it has at
  most as many nodes as there are registered locations.
\<close>

theorem reported_path_bound:
  assumes "reachable st" "app_step st (ComputeShortestPath s t) st' out"
    "PathOutput (ShortestPath d p cs) \<in> set out"
  shows "set p \<subseteq> locations_set st \<and> distinct p \<and> length p \<le> card (locations_set st)"
proof -
  have fin: "finite (locations_set st)" by (rule reachable_finite [OF assms(1)])
  from compute_output [OF assms(2,3) fin]
  have c: "compute_path st s t = ShortestPath d p cs" and s: "s \<in> locations_set st" by auto
  from dijkstra_walk [OF compute_found [OF c]] have w: "walk (graph st) s p d" and dp: "distinct p"
    by auto
  from reachable_app_inv [OF assms(1)]
  have k: "keys (graph st) = locations_set st" and sym: "symmetric (graph st)"
    by (auto simp: app_inv_def)
  from walk_keys [OF w _ sym] s k have sub: "set p \<subseteq> locations_set st" by simp
  from card_mono [OF fin sub] distinct_card [OF dp] have "length p \<le> card (locations_set st)" by simp
  with sub dp show ?thesis by simp
qed

theorem reported_path_bound_witness:
  "set [''A'', ''B'', ''C''] \<subseteq> locations_set (snd (submit_road (snd (submit_road (snd (submit_road
     init_state ''A'' ''B'' ''1'')) ''B'' ''C'' ''2'')) ''A'' ''C'' ''10'')) \<and>
   length [''A'', ''B'', ''C''] \<le> card (locations_set (snd (submit_road (snd (submit_road (snd (submit_road
     init_state ''A'' ''B'' ''1'')) ''B'' ''C'' ''2'')) ''A'' ''C'' ''10'')))"
proof -
  let ?st = "snd (submit_road (snd (submit_road (snd (submit_road init_state ''A'' ''B'' ''1''))
     ''B'' ''C'' ''2'')) ''A'' ''C'' ''10'')"
  have loc: "locations_set ?st = {''C'', ''A'', ''B''}"
    by (simp add: eval_simps add_road_edges_def add_key_def insert_commute)
  have c: "compute_path ?st ''A'' ''C'' = ShortestPath 3 [''A'', ''B'', ''C''] [Red, Black, Red]"
    by (rule compute_triangle)
  have mem: "set (sorted_list_of_set (locations_set ?st)) = locations_set ?st"
    by (rule set_sorted_list_of_set) (simp add: loc)
  have "app_step ?st (ComputeShortestPath ''A'' ''C'') ?st
      (shown ?st @ [PathOutput (compute_path ?st ''A'' ''C'')])"
    by (rule app_step.compute) (simp_all only: mem, simp_all add: loc)
  then have step: "app_step ?st (ComputeShortestPath ''A'' ''C'') ?st
      (shown ?st @ [PathOutput (ShortestPath 3 [''A'', ''B'', ''C''] [Red, Black, Red])])"
    by (simp only: c)
  have out: "PathOutput (ShortestPath 3 [''A'', ''B'', ''C''] [Red, Black, Red]) \<in>
      set (shown ?st @ [PathOutput (ShortestPath 3 [''A'', ''B'', ''C''] [Red, Black, Red])])"
    by simp
  from reported_path_bound [OF session_state_triangle step out] show ?thesis by simp
qed

text \<open>
  C17. Every step of a reported path is drawn in red: for each two consecutive nodes of
  the path, \<^verbatim>\<open>G.edges()\<close> has an edge joining them, in one orientation or the other,
  and its colour is red. With \<open>highlight_marks_path\<close> the red edges are exactly the path's steps.
\<close>

theorem path_steps_drawn_red:
  assumes c: "compute_path st s t = ShortestPath d p cs" and i: "Suc i < length p"
  shows "\<exists>j < length cs. nx_edges (nx_graph (graph st)) ! j \<in> {(p ! i, p ! Suc i), (p ! Suc i, p ! i)} \<and>
           cs ! j = Red"
proof -
  let ?E = "nx_edges (nx_graph (graph st))"
  have r: "dijkstra (graph st) s t = (Fin d, p)" by (rule compute_found [OF c])
  with c have cs: "cs = edge_colors p ?E" by (simp add: compute_path_def)
  from dijkstra_walk [OF r] have w: "walk (graph st) s p d" and dp: "distinct p" by auto
  from walk_nth_step [OF w i] obtain w where "(p ! Suc i, w) \<in> set (adj (graph st) (p ! i))" by blast
  then have "\<exists>es w. (p ! i, es) \<in> set (graph st) \<and> (p ! Suc i, w) \<in> set es"
    by (blast dest: adj_in_graph)
  from nx_edges_cover [OF this] obtain j where j: "j < length ?E"
    and e: "?E ! j \<in> {(p ! i, p ! Suc i), (p ! Suc i, p ! i)}"
    by (auto simp: in_set_conv_nth)
  have "consecutive p (fst (?E ! j)) (snd (?E ! j))"
    using e i unfolding consecutive_def by auto
  with edge_colors_nth [OF dp j] cs j e show ?thesis by (auto simp: edge_colors_def)
qed

theorem path_steps_drawn_red_witness:
  "\<exists>j < 3. nx_edges (nx_graph (graph (snd (submit_road (snd (submit_road (snd (submit_road init_state
       ''A'' ''B'' ''1'')) ''B'' ''C'' ''2'')) ''A'' ''C'' ''10'')))) ! j \<in> {(''B'', ''C''), (''C'', ''B'')} \<and>
     [Red, Black, Red] ! j = Red"
  using path_steps_drawn_red [OF compute_triangle, of 1] by (simp add: eval_nat_numeral)

end
